theory Spec2Isabelle
  imports Main "HOL-Library.AList" "HOL-Library.Word"
begin

unbundle bit_operations_syntax

section \<open>TTL cache of the API services\<close>

text \<open>
  Every service keeps \<^verbatim>\<open>this.cache = new Map()\<close>, a JavaScript \<open>Map\<close> from string keys to
  \<^verbatim>\<open>{ data, timestamp }\<close>. A \<open>Map\<close> iterates in insertion order, and \<open>set\<close> on a key that is
  already present replaces the value without moving the key. The model is an association
  list with the operations of \<open>HOL-Library.AList\<close>: \<open>Map.get\<close> is \<^const>\<open>map_of\<close>,
  \<open>Map.set\<close> is \<^const>\<open>AList.update\<close> (replace in place, else append), \<open>Map.delete\<close> is
  \<^const>\<open>AList.delete\<close>, \<open>Map.keys()\<close> is \<open>map fst\<close> and \<open>Map.size\<close> is \<^const>\<open>length\<close> (the keys
  of every store built from the empty one are distinct, lemma \<open>run_invariant\<close> below).
  Times are \<open>Date.now()\<close> readings in milliseconds, modelled as \<^typ>\<open>int\<close>.
\<close>

record 'v entry =
  data :: 'v
  timestamp :: int

type_synonym 'v cache = "(string \<times> 'v entry) list"

datatype service =
  CoinGecko | CoinDesk | ArkhamIntel | GasEstimation | NetworkMonitoring | DeFiMonitoring

text \<open>
  The trim of \<^verbatim>\<open>setCachedData\<close>: \<^verbatim>\<open>if (this.cache.size > 100) { ... slice(0, 20) ... }\<close> in
  CoinGeckoService, ArkhamIntelService and NetworkMonitoringService, \<^verbatim>\<open>> 50\<close> and
  \<^verbatim>\<open>slice(0, 10)\<close> in CoinDeskService and GasEstimationService. The \<^verbatim>\<open>setCachedData\<close> of
  DeFiMonitoringService has no trim at all.
\<close>

fun trim_config :: "service \<Rightarrow> (nat \<times> nat) option" where
  "trim_config CoinGecko = Some (100, 20)"
| "trim_config CoinDesk = Some (50, 10)"
| "trim_config ArkhamIntel = Some (100, 20)"
| "trim_config GasEstimation = Some (50, 10)"
| "trim_config NetworkMonitoring = Some (100, 20)"
| "trim_config DeFiMonitoring = None"

text \<open>
  \<^verbatim>\<open>getCachedData(key, maxAge)\<close> at time \<open>now\<close>: the result (\<open>None\<close> for JavaScript's \<open>null\<close>)
  and the store afterwards.
\<close>

definition getCachedData :: "int \<Rightarrow> string \<Rightarrow> int \<Rightarrow> 'v cache \<Rightarrow> 'v option \<times> 'v cache" where
  "getCachedData now key maxAge c =
     (case map_of c key of
        None \<Rightarrow> (None, c)
      | Some cached \<Rightarrow>
          if now - timestamp cached > maxAge then (None, AList.delete key c)
          else (Some (data cached), c))"

text \<open>\<^verbatim>\<open>oldestKeys.forEach(key => this.cache.delete(key))\<close>\<close>

definition delete_keys :: "string list \<Rightarrow> 'v cache \<Rightarrow> 'v cache" where
  "delete_keys oldestKeys c = foldl (\<lambda>m key. AList.delete key m) c oldestKeys"

text \<open>\<^verbatim>\<open>setCachedData(key, data)\<close> of service \<open>svc\<close> at time \<open>now\<close>.\<close>

definition setCachedData :: "service \<Rightarrow> int \<Rightarrow> string \<Rightarrow> 'v \<Rightarrow> 'v cache \<Rightarrow> 'v cache" where
  "setCachedData svc now key d c =
     (let c1 = AList.update key \<lparr>data = d, timestamp = now\<rparr> c
      in case trim_config svc of
           None \<Rightarrow> c1
         | Some (ceiling, n) \<Rightarrow>
             if length c1 > ceiling
             then delete_keys (take n (map fst c1)) c1
             else c1)"

text \<open>
  A history of a store: the calls made on it, each with the clock reading at the call.
\<close>

datatype 'v cache_op = Get string int | Set string 'v

fun cache_step :: "service \<Rightarrow> 'v cache \<Rightarrow> int \<times> 'v cache_op \<Rightarrow> 'v cache" where
  "cache_step svc c (now, Get key maxAge) = snd (getCachedData now key maxAge c)"
| "cache_step svc c (now, Set key d) = setCachedData svc now key d c"

definition run :: "service \<Rightarrow> (int \<times> 'v cache_op) list \<Rightarrow> 'v cache \<Rightarrow> 'v cache" where
  "run svc ops c = foldl (cache_step svc) c ops"

fun sets_key :: "string \<Rightarrow> int \<times> 'v cache_op \<Rightarrow> bool" where
  "sets_key k (now, Set key d) = (key = k)"
| "sets_key k (now, Get key maxAge) = False"

definition no_set_for :: "string \<Rightarrow> (int \<times> 'v cache_op) list \<Rightarrow> bool" where
  "no_set_for k ops = list_all (\<lambda>x. \<not> sets_key k x) ops"

text \<open>
  The bound that the trim is meant to keep: at most \<open>ceiling\<close> entries where the service
  has a trim, nothing where it has none.
\<close>

definition within_ceiling :: "service \<Rightarrow> 'v cache \<Rightarrow> bool" where
  "within_ceiling svc c =
     (case trim_config svc of None \<Rightarrow> True | Some (ceiling, n) \<Rightarrow> length c \<le> ceiling)"

text \<open>
  The two ways in which a call on the store removes the entry of another key \<open>k\<close>, or of
  \<open>k\<close> itself on a read. A read of \<open>k\<close> evicts it when the entry is older than the window
  of that read. A set overflows the ceiling and trims \<open>k\<close> away when \<open>k\<close> is among the \<open>n\<close>
  earliest keys of the store that the set has just extended.
\<close>

fun stale_read :: "string \<Rightarrow> 'v cache \<Rightarrow> int \<times> 'v cache_op \<Rightarrow> bool" where
  "stale_read k c (now, Get key maxAge) =
     (key = k \<and> (case map_of c k of None \<Rightarrow> False | Some e \<Rightarrow> now - timestamp e > maxAge))"
| "stale_read k c (now, Set key d) = False"

fun trims_away :: "service \<Rightarrow> string \<Rightarrow> 'v cache \<Rightarrow> int \<times> 'v cache_op \<Rightarrow> bool" where
  "trims_away svc k c (now, Get key maxAge) = False"
| "trims_away svc k c (now, Set key d) =
     (case trim_config svc of
        None \<Rightarrow> False
      | Some (ceiling, n) \<Rightarrow>
          length (AList.update key \<lparr>data = d, timestamp = now\<rparr> c) > ceiling
          \<and> k \<in> set (take n (map fst (AList.update key \<lparr>data = d, timestamp = now\<rparr> c))))"

text \<open>A history during which neither happens to \<open>k\<close>, started on the store \<open>c\<close>.\<close>

fun undisturbed :: "service \<Rightarrow> string \<Rightarrow> (int \<times> 'v cache_op) list \<Rightarrow> 'v cache \<Rightarrow> bool" where
  "undisturbed svc k [] c = True"
| "undisturbed svc k (x # ops) c =
     (\<not> stale_read k c x \<and> \<not> trims_away svc k c x \<and> undisturbed svc k ops (cache_step svc c x))"

text \<open>
  Two conditions on the history alone under which neither happens to \<open>k\<close>, set at time
  \<open>t0\<close>. Every read of \<open>k\<close> is made within its own window of \<open>t0\<close>. The store cannot
  overflow: the sets made before the set of \<open>k\<close>, that set and the sets made after it are
  together no more than the ceiling (a set adds at most one entry).
\<close>

fun reads_in_window :: "string \<Rightarrow> int \<Rightarrow> int \<times> 'v cache_op \<Rightarrow> bool" where
  "reads_in_window k t0 (now, Get key maxAge) = (key \<noteq> k \<or> now - t0 \<le> maxAge)"
| "reads_in_window k t0 (now, Set key d) = True"

fun is_set :: "int \<times> 'v cache_op \<Rightarrow> bool" where
  "is_set (now, Set key d) = True"
| "is_set (now, Get key maxAge) = False"

definition no_overflow ::
  "service \<Rightarrow> (int \<times> 'v cache_op) list \<Rightarrow> (int \<times> 'v cache_op) list \<Rightarrow> bool" where
  "no_overflow svc ops0 ops =
     (case trim_config svc of
        None \<Rightarrow> True
      | Some (ceiling, n) \<Rightarrow>
          Suc (length (filter is_set ops0)) + length (filter is_set ops) \<le> ceiling)"

text \<open>\<open>n\<close> calls \<^verbatim>\<open>setCachedData\<close> at time 0 with the pairwise different one-character keys
  \<open>"0"\<close>, \<open>"1"\<close>, \<open>"2"\<close>, ... (character codes 48, 49, ...).\<close>

definition fill :: "nat \<Rightarrow> (int \<times> nat cache_op) list" where
  "fill n = map (\<lambda>i. (0, Set [char_of (48 + i)] i)) [0..<n]"

section \<open>Rate-limited client\<close>

text \<open>
  The bodies that an upstream API returns matter to the control flow only through
  JavaScript's truthiness (\<^verbatim>\<open>if (cached) return cached\<close>) and through property access,
  which throws a \<open>TypeError\<close> on \<open>null\<close> and \<open>undefined\<close>.
\<close>

datatype jsdata =
    Nullish              \<comment> \<open>\<open>null\<close> or \<open>undefined\<close>\<close>
  | FalsyValue           \<comment> \<open>\<open>0\<close>, \<open>''\<close>, \<open>false\<close>, \<open>NaN\<close>\<close>
  | Object string        \<comment> \<open>any truthy value, with its content\<close>

fun truthy :: "jsdata option \<Rightarrow> bool" where
  "truthy (Some (Object x)) = True"
| "truthy _ = False"

text \<open>The truthiness of a string that may be \<open>undefined\<close> (an API key, a header, a secret):
  \<open>undefined\<close> and the empty string are falsy.\<close>

fun present :: "string option \<Rightarrow> bool" where
  "present None = False"
| "present (Some s) = (s \<noteq> [])"

text \<open>
  The state of one client: its cache, \<^verbatim>\<open>rateLimitDelay\<close> and \<^verbatim>\<open>lastRequestTime\<close>. The field
  \<open>sent\<close> is not in the source: it records every call of \<^verbatim>\<open>this.client.get\<close> with the clock
  reading at which it was issued, so that the theorems can speak about outbound requests.
\<close>

record client =
  cache :: "jsdata cache"
  rateLimitDelay :: int
  lastRequestTime :: int
  sent :: "(string \<times> int) list"

text \<open>
  The network: what \<^verbatim>\<open>this.client.get(endpoint)\<close> issued at a given time does, an error
  message (axios rejects: transport failure, non-2xx status, the 10 s timeout) or the body
  \<^verbatim>\<open>response.data\<close>, and the milliseconds it takes.
\<close>

type_synonym network = "string \<Rightarrow> int \<Rightarrow> (string + jsdata) \<times> nat"

text \<open>
  \<^verbatim>\<open>makeRequest(endpoint)\<close> of CoinDeskService and CoinGeckoService (the same code), called
  at clock reading \<open>now\<close>. The second \<^verbatim>\<open>Date.now()\<close> reads \<open>now\<close> plus the requested wait plus
  \<open>late\<close>, the time by which the timer fires after its delay (\<^verbatim>\<open>setTimeout\<close> does not fire
  early; the clock does not run backwards). The result is what the call returns (\<open>Inl\<close>: the
  error it rethrows), the clock reading when it settles, and the client afterwards.
\<close>

definition makeRequest ::
  "network \<Rightarrow> nat \<Rightarrow> string \<Rightarrow> int \<Rightarrow> client \<Rightarrow> (string + jsdata) \<times> int \<times> client" where
  "makeRequest net late endpoint now c =
     (let timeSinceLastRequest = now - lastRequestTime c;
          wait = (if timeSinceLastRequest < rateLimitDelay c
                  then rateLimitDelay c - timeSinceLastRequest else 0);
          issued = now + wait + int late;
          c' = c\<lparr>lastRequestTime := issued, sent := sent c @ [(endpoint, issued)]\<rparr>
      in (fst (net endpoint issued), issued + int (snd (net endpoint issued)), c'))"

text \<open>What a health probe resolves with: \<^verbatim>\<open>{ status, error, responseTime, ... }\<close>.\<close>

record report =
  status :: string
  error :: "string option"
  responseTime :: "int option"

text \<open>
  \<^verbatim>\<open>getCurrentBitcoinPrice()\<close> of CoinDeskService. After a successful request the code
  logs \<^verbatim>\<open>data.bpi?.USD?.rate_float\<close>, which throws a \<open>TypeError\<close> on a nullish body; the
  \<open>catch\<close> rethrows.
\<close>

definition getCurrentBitcoinPrice ::
  "network \<Rightarrow> nat \<Rightarrow> int \<Rightarrow> client \<Rightarrow> (string + jsdata) \<times> int \<times> client" where
  "getCurrentBitcoinPrice net late now c =
     (let cacheKey = ''btc-current-price'';
          (cached, store) = getCachedData now cacheKey (60 * 1000) (cache c);
          c1 = c\<lparr>cache := store\<rparr>
      in case (if truthy cached then cached else None) of
           Some hit \<Rightarrow> (Inr hit, now, c1)
         | None \<Rightarrow>
            (case makeRequest net late ''/bpi/currentprice.json'' now c1 of
               (Inl err, fin, c2) \<Rightarrow> (Inl err, fin, c2)
             | (Inr d, fin, c2) \<Rightarrow>
                 (let c3 = c2\<lparr>cache := setCachedData CoinDesk fin cacheKey d (cache c2)\<rparr>
                  in if d = Nullish
                     then (Inl ''TypeError: Cannot read properties of null'', fin, c3)
                     else (Inr d, fin, c3))))"

text \<open>\<^verbatim>\<open>healthCheck()\<close> of CoinDeskService: the probe reads the price through the cache.\<close>

definition healthCheck_coindesk :: "network \<Rightarrow> nat \<Rightarrow> int \<Rightarrow> client \<Rightarrow> report \<times> int \<times> client" where
  "healthCheck_coindesk net late startTime c =
     (case getCurrentBitcoinPrice net late startTime c of
        (Inr response, fin, c') \<Rightarrow>
          (\<lparr>status = ''healthy'', error = None, responseTime = Some (fin - startTime)\<rparr>, fin, c')
      | (Inl err, fin, c') \<Rightarrow>
          (\<lparr>status = ''error'', error = Some err, responseTime = None\<rparr>, fin, c'))"

text \<open>\<^verbatim>\<open>healthCheck()\<close> of CoinGeckoService: \<^verbatim>\<open>makeRequest('/ping')\<close>, then \<^verbatim>\<open>response.status\<close>,
  which throws on a nullish body inside the \<open>try\<close>.\<close>

definition healthCheck_coingecko :: "network \<Rightarrow> nat \<Rightarrow> int \<Rightarrow> client \<Rightarrow> report \<times> int \<times> client" where
  "healthCheck_coingecko net late startTime c =
     (case makeRequest net late ''/ping'' startTime c of
        (Inr response, fin, c') \<Rightarrow>
          (if response = Nullish
           then (\<lparr>status = ''error'', error = Some ''TypeError: Cannot read properties of null'',
                   responseTime = None\<rparr>, fin, c')
           else (\<lparr>status = ''healthy'', error = None, responseTime = Some (fin - startTime)\<rparr>,
                 fin, c'))
      | (Inl err, fin, c') \<Rightarrow>
          (\<lparr>status = ''error'', error = Some err, responseTime = None\<rparr>, fin, c'))"

text \<open>
  The clock reading at which a call of \<^verbatim>\<open>makeRequest\<close> started at \<open>now\<close> issues its request,
  and the status that a probe reports for the answer of a live request.
\<close>

definition issue_time :: "nat \<Rightarrow> int \<Rightarrow> client \<Rightarrow> int" where
  "issue_time late now c =
     now + (if now - lastRequestTime c < rateLimitDelay c
            then rateLimitDelay c - (now - lastRequestTime c) else 0) + int late"

fun live_status :: "string + jsdata \<Rightarrow> string" where
  "live_status (Inl err) = ''error''"
| "live_status (Inr Nullish) = ''error''"
| "live_status (Inr d) = ''healthy''"

text \<open>Whether a probe of CoinDeskService at \<open>now\<close> finds a usable cached price.\<close>

definition fresh_price :: "int \<Rightarrow> client \<Rightarrow> bool" where
  "fresh_price now c = truthy (fst (getCachedData now ''btc-current-price'' (60 * 1000) (cache c)))"

text \<open>
  \<^verbatim>\<open>healthCheck()\<close> of ArkhamIntelService. It makes no request: without an API key it
  reports \<open>unavailable\<close>, with one it reports \<open>healthy\<close>; \<open>elapsed\<close> is the difference of its
  two consecutive \<^verbatim>\<open>Date.now()\<close> readings.
\<close>

definition healthCheck_arkham :: "string option \<Rightarrow> nat \<Rightarrow> report" where
  "healthCheck_arkham apiKey elapsed =
     (if \<not> present apiKey
      then \<lparr>status = ''unavailable'', error = Some ''API key not configured'', responseTime = None\<rparr>
      else \<lparr>status = ''healthy'', error = None, responseTime = Some (int elapsed)\<rparr>)"

text \<open>
  \<^verbatim>\<open>healthCheck()\<close> of GasEstimationService: the loop over \<^verbatim>\<open>this.providers\<close> awaits
  \<^verbatim>\<open>provider.getBlockNumber()\<close> of every provider inside its own \<open>try\<close>. \<open>getBlockNumber\<close> is
  what that call does for the provider of a network during this check: it rejects or gives
  a block number. The loop state is the list of the providers asked and \<^verbatim>\<open>healthyCount\<close>.
\<close>

fun ask_providers ::
  "(string \<Rightarrow> string + nat) \<Rightarrow> string list \<Rightarrow> string list \<times> nat \<Rightarrow> string list \<times> nat" where
  "ask_providers getBlockNumber [] acc = acc"
| "ask_providers getBlockNumber (networkName # rest) (asked, healthyCount) =
     ask_providers getBlockNumber rest
       (asked @ [networkName],
        (case getBlockNumber networkName of
           Inr blockNumber \<Rightarrow> healthyCount + 1
         | Inl err \<Rightarrow> healthyCount))"

definition healthCheck_gas :: "(string \<Rightarrow> string + nat) \<Rightarrow> string list \<Rightarrow> report \<times> string list" where
  "healthCheck_gas getBlockNumber providers =
     (let (asked, healthyCount) = ask_providers getBlockNumber providers ([], 0)
      in (\<lparr>status = (if healthyCount > 0 then ''healthy'' else ''error''), error = None,
           responseTime = None\<rparr>, asked))"

text \<open>
  \<^verbatim>\<open>healthCheck()\<close> of NetworkMonitoringService: the same loop, with
  \<^verbatim>\<open>Promise.all([provider.getBlockNumber(), provider.getNetwork()])\<close> as the call; \<open>getBoth\<close>
  rejects or gives the block number and the chain id.
\<close>

fun ask_networks ::
  "(string \<Rightarrow> string + nat \<times> nat) \<Rightarrow> string list \<Rightarrow> string list \<times> nat
   \<Rightarrow> string list \<times> nat" where
  "ask_networks getBoth [] acc = acc"
| "ask_networks getBoth (networkName # rest) (asked, healthyCount) =
     ask_networks getBoth rest
       (asked @ [networkName],
        (case getBoth networkName of
           Inr (blockNumber, chainId) \<Rightarrow> healthyCount + 1
         | Inl err \<Rightarrow> healthyCount))"

definition healthCheck_network ::
  "(string \<Rightarrow> string + nat \<times> nat) \<Rightarrow> string list \<Rightarrow> report \<times> string list" where
  "healthCheck_network getBoth providers =
     (let (asked, healthyCount) = ask_networks getBoth providers ([], 0)
      in (\<lparr>status = (if healthyCount > 0 then ''healthy'' else ''error''), error = None,
           responseTime = None\<rparr>, asked))"

text \<open>
  \<^verbatim>\<open>healthCheck()\<close> of DeFiMonitoringService at clock reading \<open>now\<close>. It starts
  \<^verbatim>\<open>getProtocolData\<close> for the three configured protocols \<open>uniswap\<close>, \<open>aave\<close> and \<open>compound\<close>,
  each reading the cache with a window of five minutes first. On a miss \<open>aave\<close> and
  \<open>compound\<close> store their placeholder objects at once; \<open>uniswap\<close> posts to the subgraph and
  stores the answer when it arrives (\<open>subgraph\<close> is what \<^verbatim>\<open>getUniswapData\<close> does when started at
  a time: it throws, or gives \<^verbatim>\<open>response.data.data\<close>, after some milliseconds). What the
  three calls do only fills the \<^verbatim>\<open>protocols\<close> list of the report; its \<^verbatim>\<open>status\<close> is the
  constant \<open>healthy\<close>. The result is the report, the posts made and the cache afterwards.
\<close>

definition healthCheck_defi ::
  "(int \<Rightarrow> (string + jsdata) \<times> nat) \<Rightarrow> int \<Rightarrow> jsdata cache
   \<Rightarrow> report \<times> (string \<times> int) list \<times> jsdata cache" where
  "healthCheck_defi subgraph now c =
     (let maxAge = 5 * 60 * 1000;
          (uniswap, c1) = getCachedData now ''protocol-uniswap'' maxAge c;
          (aave, c2) = getCachedData now ''protocol-aave'' maxAge c1;
          (compound, c3) = getCachedData now ''protocol-compound'' maxAge c2;
          c4 = (if truthy aave then c3
                else setCachedData DeFiMonitoring now ''protocol-aave'' (Object ''aave'') c3);
          c5 = (if truthy compound then c4
                else setCachedData DeFiMonitoring now ''protocol-compound'' (Object ''compound'') c4);
          healthy = \<lparr>status = ''healthy'', error = None, responseTime = None\<rparr>
      in if truthy uniswap then (healthy, [], c5)
         else (case subgraph now of
                 (Inl err, latency) \<Rightarrow> (healthy, [(''subgraphUrl'', now)], c5)
               | (Inr d, latency) \<Rightarrow>
                   (healthy, [(''subgraphUrl'', now)],
                    setCachedData DeFiMonitoring (now + int latency) ''protocol-uniswap'' d c5)))"

text \<open>Whether a probe of DeFiMonitoringService at \<open>now\<close> finds usable cached uniswap data.\<close>

definition fresh_uniswap :: "int \<Rightarrow> jsdata cache \<Rightarrow> bool" where
  "fresh_uniswap now c = truthy (fst (getCachedData now ''protocol-uniswap'' (5 * 60 * 1000) c))"

text \<open>Whether some provider answers.\<close>

definition some_answer :: "(string \<Rightarrow> string + 'a) \<Rightarrow> string list \<Rightarrow> bool" where
  "some_answer call providers = list_ex (\<lambda>networkName. \<not> isl (call networkName)) providers"

text \<open>Providers and a subgraph for the examples: only the provider of \<open>ethereum\<close> answers;
  the subgraph refuses every post.\<close>

definition only_ethereum :: "string \<Rightarrow> string + nat" where
  "only_ethereum networkName =
     (if networkName = ''ethereum'' then Inr 19000000 else Inl ''timeout'')"

definition no_provider :: "string \<Rightarrow> string + nat \<times> nat" where
  "no_provider networkName = Inl ''timeout''"

definition subgraph_down :: "int \<Rightarrow> (string + jsdata) \<times> nat" where
  "subgraph_down t = (Inl ''connect ECONNREFUSED'', 5)"

text \<open>Two networks and two clients for the examples.\<close>

definition quick_net :: network where
  "quick_net endpoint t = (Inr (Object ''pong''), 300)"

definition down_net :: network where
  "down_net endpoint t = (Inl ''connect ECONNREFUSED'', 5)"

definition coindesk_fresh :: client where
  "coindesk_fresh = \<lparr>cache = [], rateLimitDelay = 1000, lastRequestTime = 0, sent = []\<rparr>"

definition coindesk_warm :: client where
  "coindesk_warm =
     \<lparr>cache = [(''btc-current-price'', \<lparr>data = Object ''65000'', timestamp = 1000\<rparr>)],
      rateLimitDelay = 1000, lastRequestTime = 1000,
      sent = [(''/bpi/currentprice.json'', 1000)]\<rparr>"

section \<open>Health aggregator\<close>

text \<open>
  What \<^verbatim>\<open>await service.healthCheck()\<close> does for one service during one call of
  \<^verbatim>\<open>getOverallStatus\<close>: the service has no \<^verbatim>\<open>healthCheck\<close>, or the probe resolves with a
  report, or it rejects with an error message.
\<close>

datatype probe = NoHealthCheck | Resolves report | Rejects string

text \<open>The object that \<^verbatim>\<open>getOverallStatus\<close> returns, without its \<^verbatim>\<open>timestamp\<close>.\<close>

record HealthStatus =
  services :: "(string \<times> report) list"
  overall :: string

text \<open>The object literal \<^verbatim>\<open>services\<close>, in the order \<^verbatim>\<open>Object.entries\<close> walks it.\<close>

definition registered_services :: "(string \<times> service) list" where
  "registered_services =
     [(''coingecko'', CoinGecko), (''coindesk'', CoinDesk), (''arkhamIntel'', ArkhamIntel),
      (''gasEstimation'', GasEstimation), (''networkMonitoring'', NetworkMonitoring),
      (''defiMonitoring'', DeFiMonitoring)]"

text \<open>One iteration of the loop: the entry stored under the name, and \<^verbatim>\<open>hasErrors\<close>.\<close>

fun probe_service :: "probe \<Rightarrow> bool \<Rightarrow> report \<times> bool" where
  "probe_service NoHealthCheck hasErrors =
     (\<lparr>status = ''unknown'', error = None, responseTime = None\<rparr>, hasErrors)"
| "probe_service (Resolves r) hasErrors =
     (r, if status r = ''error'' then True else hasErrors)"
| "probe_service (Rejects message) hasErrors =
     (\<lparr>status = ''error'', error = Some message, responseTime = None\<rparr>, True)"

fun probe_all ::
  "(service \<Rightarrow> probe) \<Rightarrow> (string \<times> service) list \<Rightarrow> (string \<times> report) list \<times> bool
   \<Rightarrow> (string \<times> report) list \<times> bool" where
  "probe_all probes [] acc = acc"
| "probe_all probes ((name, svc) # rest) (entries, hasErrors) =
     probe_all probes rest
       (AList.update name (fst (probe_service (probes svc) hasErrors)) entries,
        snd (probe_service (probes svc) hasErrors))"

definition getOverallStatus :: "(service \<Rightarrow> probe) \<Rightarrow> HealthStatus" where
  "getOverallStatus probes =
     (let (entries, hasErrors) = probe_all probes registered_services ([], False)
      in \<lparr>services = entries, overall = (if hasErrors then ''degraded'' else ''healthy'')\<rparr>)"

text \<open>A probe that reports \<open>error\<close> or throws.\<close>

fun failing :: "probe \<Rightarrow> bool" where
  "failing NoHealthCheck = False"
| "failing (Resolves r) = (status r = ''error'')"
| "failing (Rejects message) = True"

text \<open>The entry that a probe leaves under its service's name.\<close>

fun entry_of :: "probe \<Rightarrow> report" where
  "entry_of p = fst (probe_service p False)"

text \<open>Probes for the examples: the one of CoinDesk throws, the one of ArkhamIntel reports
  \<open>unavailable\<close>, the others report \<open>healthy\<close>.\<close>

fun one_throws :: "service \<Rightarrow> probe" where
  "one_throws CoinDesk = Rejects ''socket hang up''"
| "one_throws ArkhamIntel =
     Resolves \<lparr>status = ''unavailable'', error = Some ''API key not configured'',
               responseTime = None\<rparr>"
| "one_throws svc = Resolves \<lparr>status = ''healthy'', error = None, responseTime = Some 12\<rparr>"

section \<open>Task runner\<close>

text \<open>
  A task body is a zero-argument async function. Started at a clock reading it either
  resolves (\<open>None\<close>) or rejects with an error message, and \<^verbatim>\<open>Date.now()\<close> after the \<open>await\<close>
  gives the second component.
\<close>

type_synonym taskFunction = "int \<Rightarrow> string option \<times> int"

text \<open>
  The handle that \<^verbatim>\<open>cron.schedule(schedule, callback, { scheduled })\<close> of node-cron 3
  returns. With \<^verbatim>\<open>scheduled: false\<close> the task is created but not started, and it fires only
  after its \<^verbatim>\<open>start()\<close> is called; \<^verbatim>\<open>stop()\<close> ends the firing. The only callback that this
  code passes to \<^verbatim>\<open>cron.schedule\<close> is the wrapper built in \<^verbatim>\<open>addTask\<close>, so the handle keeps
  the wrapped \<open>taskFunction\<close>.
\<close>

record timer =
  expression :: string
  taskFunction :: taskFunction
  started :: bool

datatype log_event =
    Info string
  | Warn string
  | TaskPerformance string int       \<comment> \<open>\<^verbatim>\<open>logger.performance(`Task ${name}`, duration)\<close>\<close>
  | TaskFailed string int string     \<comment> \<open>\<^verbatim>\<open>logger.error(`Task ${name} failed after ${duration}ms:`, error)\<close>\<close>
  | TasksStarted nat                 \<comment> \<open>\<^verbatim>\<open>logger.info(`Started ${this.tasks.size} scheduled tasks`)\<close>\<close>

record ScheduledTasks =
  tasks :: "(string \<times> timer) list"
  isRunning :: bool
  logged :: "log_event list"

definition constructor :: ScheduledTasks where
  "constructor = \<lparr>tasks = [], isRunning = False, logged = []\<rparr>"

text \<open>
  The callback that \<^verbatim>\<open>addTask\<close> hands to \<^verbatim>\<open>cron.schedule\<close>, run at \<open>startTime\<close>: the error that
  leaves the callback (\<open>None\<close>: none does) and the log afterwards.
\<close>

definition task_callback ::
  "string \<Rightarrow> taskFunction \<Rightarrow> int \<Rightarrow> log_event list \<Rightarrow> string option \<times> log_event list" where
  "task_callback name fn startTime lg =
     (let lg1 = lg @ [Info (''Starting scheduled task: '' @ name)]
      in case fn startTime of
           (None, fin) \<Rightarrow> (None, lg1 @ [TaskPerformance name (fin - startTime)])
         | (Some err, fin) \<Rightarrow> (None, lg1 @ [TaskFailed name (fin - startTime) err]))"

text \<open>
  \<^verbatim>\<open>addTask(name, schedule, taskFunction)\<close>. \<^verbatim>\<open>cron.schedule\<close> validates the expression and
  throws on one it does not accept; \<open>valid\<close> is that test of the library. The result is the
  exception that leaves \<^verbatim>\<open>addTask\<close> and the runner afterwards.
\<close>

datatype cron_error = InvalidExpression string

definition addTask ::
  "(string \<Rightarrow> bool) \<Rightarrow> string \<Rightarrow> string \<Rightarrow> taskFunction \<Rightarrow> ScheduledTasks
   \<Rightarrow> cron_error option \<times> ScheduledTasks" where
  "addTask valid name schedule fn s =
     (let s1 = (case map_of (tasks s) name of
                  Some old \<Rightarrow>
                    s\<lparr>logged := logged s @ [Warn (''Task '' @ name @ '' already exists, replacing...'')],
                      tasks := AList.update name (old\<lparr>started := False\<rparr>) (tasks s)\<rparr>
                | None \<Rightarrow> s)
      in if valid schedule
         then (let task = \<lparr>expression = schedule, taskFunction = fn, started = isRunning s1\<rparr>
               in (None,
                   s1\<lparr>tasks := AList.update name task (tasks s1),
                      logged := logged s1
                        @ [Info (''Added scheduled task: '' @ name @ '' ('' @ schedule @ '')'')]\<rparr>))
         else (Some (InvalidExpression schedule), s1))"

text \<open>Statements in sequence: the next one runs if the one before it threw nothing.\<close>

definition and_then ::
  "cron_error option \<times> ScheduledTasks \<Rightarrow> (ScheduledTasks \<Rightarrow> cron_error option \<times> ScheduledTasks)
   \<Rightarrow> cron_error option \<times> ScheduledTasks" where
  "and_then r f = (case r of (None, s) \<Rightarrow> f s | (Some e, s) \<Rightarrow> (Some e, s))"

text \<open>
  \<^verbatim>\<open>start()\<close>. The bodies of the five tasks call the API services; \<open>jobs\<close> gives the body
  registered under each name, and \<open>interval\<close> is \<^verbatim>\<open>config.monitoring.updateIntervalMinutes\<close>
  as the template literal prints it (\<open>30\<close> unless the environment sets it).
\<close>

definition start ::
  "(string \<Rightarrow> bool) \<Rightarrow> (string \<Rightarrow> taskFunction) \<Rightarrow> string \<Rightarrow> ScheduledTasks
   \<Rightarrow> cron_error option \<times> ScheduledTasks" where
  "start valid jobs interval s =
     (if isRunning s
      then (None, s\<lparr>logged := logged s @ [Warn ''Scheduled tasks already running'']\<rparr>)
      else
        and_then (and_then (and_then (and_then (and_then (and_then
          (None, s\<lparr>logged := logged s @ [Info ''Starting scheduled tasks...'']\<rparr>)
          (addTask valid ''gas-monitoring'' ''*/5 * * * *'' (jobs ''gas-monitoring'')))
          (addTask valid ''market-data'' ''*/15 * * * *'' (jobs ''market-data'')))
          (addTask valid ''defi-monitoring'' (''*/'' @ interval @ '' * * * *'')
             (jobs ''defi-monitoring'')))
          (addTask valid ''network-monitoring'' ''0 * * * *'' (jobs ''network-monitoring'')))
          (addTask valid ''health-check'' ''*/10 * * * *'' (jobs ''health-check'')))
          (\<lambda>s5. (None, s5\<lparr>isRunning := True,
                            logged := logged s5 @ [TasksStarted (length (tasks s5))]\<rparr>)))"

definition stop :: "ScheduledTasks \<Rightarrow> ScheduledTasks" where
  "stop s =
     (if \<not> isRunning s then s\<lparr>logged := logged s @ [Warn ''Scheduled tasks not running'']\<rparr>
      else s\<lparr>tasks := [], isRunning := False,
             logged := logged s @ [Info ''Stopping scheduled tasks...'']
               @ map (\<lambda>(name, task). Info (''Stopped task: '' @ name)) (tasks s)
               @ [Info ''All scheduled tasks stopped'']\<rparr>)"

text \<open>
  The cron library reaching a minute that matches the expression of the task registered
  as \<open>name\<close>, at clock reading \<open>now\<close>: a started timer runs its callback, any other does
  nothing. The first component is the error that leaves the callback, which Node would
  report as an unhandled rejection.
\<close>

definition fire :: "string \<Rightarrow> int \<Rightarrow> ScheduledTasks \<Rightarrow> string option \<times> ScheduledTasks" where
  "fire name now s =
     (case map_of (tasks s) name of
        None \<Rightarrow> (None, s)
      | Some t \<Rightarrow>
          if started t
          then (fst (task_callback name (taskFunction t) now (logged s)),
                s\<lparr>logged := snd (task_callback name (taskFunction t) now (logged s))\<rparr>)
          else (None, s))"

text \<open>Task bodies for the examples: one that always rejects after 7 ms, one that resolves
  after 3 ms.\<close>

definition failing_job :: taskFunction where
  "failing_job t = (Some ''boom'', t + 7)"

definition passing_job :: taskFunction where
  "passing_job t = (None, t + 3)"

text \<open>A library test that accepts every expression, and a runner that was started and
  then given three tasks, the second of which always fails.\<close>

definition any_expression :: "string \<Rightarrow> bool" where
  "any_expression schedule = True"

definition three_tasks :: ScheduledTasks where
  "three_tasks =
     snd (and_then (and_then (and_then
            (start any_expression (\<lambda>name. passing_job) ''30'' constructor)
            (addTask any_expression ''first'' ''* * * * *'' passing_job))
            (addTask any_expression ''second'' ''* * * * *'' failing_job))
            (addTask any_expression ''third'' ''* * * * *'' passing_job))"

section \<open>Webhook dispatcher\<close>

text \<open>
  Header values and the secret that \<^verbatim>\<open>handle\<close> reads are strings or \<open>undefined\<close>. The test
  \<^verbatim>\<open>!signature || !secret\<close> treats \<open>undefined\<close> and the empty string alike (\<open>present\<close>
  above).
\<close>

datatype exn = RangeError string

text \<open>
  \<^verbatim>\<open>Buffer.from(string)\<close> encodes in UTF-8. A header value holds code units below 256
  (Node decodes headers as Latin-1), so a character is one byte below 128 and two bytes
  from 128 on.
\<close>

definition utf8_char :: "char \<Rightarrow> nat list" where
  "utf8_char c =
     (let n = of_char c :: nat in if n < 128 then [n] else [192 + n div 64, 128 + n mod 64])"

definition Buffer_from :: "string \<Rightarrow> nat list" where
  "Buffer_from s = concat (map utf8_char s)"

text \<open>\<^verbatim>\<open>crypto.timingSafeEqual(a, b)\<close> throws when the byte lengths differ.\<close>

definition timingSafeEqual :: "nat list \<Rightarrow> nat list \<Rightarrow> exn + bool" where
  "timingSafeEqual a b =
     (if length a \<noteq> length b
      then Inl (RangeError ''Input buffers must have the same byte length'')
      else Inr (a = b))"

text \<open>\<^verbatim>\<open>.digest('hex')\<close> of a SHA-256 HMAC: 32 bytes as 64 lower-case hexadecimal digits.\<close>

definition hex_char :: "nat \<Rightarrow> char" where
  "hex_char n = ''0123456789abcdef'' ! n"

definition digest_hex :: "256 word \<Rightarrow> string" where
  "digest_hex d = map (\<lambda>i. hex_char (unat (take_bit 4 (drop_bit (4 * i) d)))) (rev [0..<64])"

text \<open>
  \<^verbatim>\<open>verifySignature(payload, signature, secret)\<close>. The HMAC of Node's \<^verbatim>\<open>crypto\<close> and
  \<^verbatim>\<open>JSON.stringify\<close> are parameters: \<open>hmac key message\<close> is the 256-bit digest.
\<close>

definition verifySignature ::
  "('p \<Rightarrow> string) \<Rightarrow> (string \<Rightarrow> string \<Rightarrow> 256 word) \<Rightarrow> 'p \<Rightarrow> string option \<Rightarrow> string option
   \<Rightarrow> exn + bool" where
  "verifySignature stringify hmac payload signature secret =
     (if \<not> present signature \<or> \<not> present secret then Inr False
      else case (signature, secret) of
             (Some sig, Some key) \<Rightarrow>
               (let digest = ''sha256='' @ digest_hex (hmac key (stringify payload))
                in timingSafeEqual (Buffer_from sig) (Buffer_from digest))
           | _ \<Rightarrow> Inr False)"

text \<open>The request as \<^verbatim>\<open>handle\<close> reads it: two headers and the body parsed by \<^verbatim>\<open>express.json()\<close>
  (the delivery id only goes to the log).\<close>

record 'p request =
  signature :: "string option"    \<comment> \<open>\<^verbatim>\<open>req.headers['x-hub-signature-256']\<close>\<close>
  event :: "string option"        \<comment> \<open>\<^verbatim>\<open>req.headers['x-github-event']\<close>\<close>
  body :: 'p

datatype response = Response nat string

text \<open>
  \<^verbatim>\<open>this.eventHandlers[event]\<close>. The table is an object literal, so a lookup also finds the
  members that every object inherits from \<^verbatim>\<open>Object.prototype\<close>. Called as
  \<^verbatim>\<open>handler(req.body, githubApp)\<close> with no receiver, \<open>constructor\<close> and \<open>toString\<close> return,
  the others throw a \<open>TypeError\<close> (\<^verbatim>\<open>__proto__\<close> is not a function).
\<close>

datatype lookup = Registered string | Inherited bool | Missing

definition eventHandlers :: "string list" where
  "eventHandlers =
     [''push'', ''pull_request'', ''repository'', ''installation'',
      ''installation_repositories'', ''issues'', ''issue_comment'']"

definition lookup_handler :: "string option \<Rightarrow> lookup" where
  "lookup_handler ev =
     (case ev of
        None \<Rightarrow> Missing
      | Some name \<Rightarrow>
          if name \<in> set eventHandlers then Registered name
          else if name \<in> set [''constructor'', ''toString''] then Inherited True
          else if name \<in> set [''hasOwnProperty'', ''isPrototypeOf'', ''propertyIsEnumerable'',
                               ''toLocaleString'', ''valueOf'', ''__proto__'',
                               ''__defineGetter__'', ''__defineSetter__'',
                               ''__lookupGetter__'', ''__lookupSetter__'']
               then Inherited False
          else Missing)"

text \<open>
  \<^verbatim>\<open>handle(req, res, githubApp)\<close>. \<open>run_handler name payload\<close> is what the handler registered
  under \<open>name\<close> does: it resolves (\<open>None\<close>) or rejects. The result is the exception that
  leaves \<^verbatim>\<open>handle\<close>, or the response sent together with the registered handlers that were
  invoked; \<open>secret\<close> is the value that \<^verbatim>\<open>githubApp.webhooks.secret\<close> has for the
  \<^verbatim>\<open>githubApp\<close> passed in. The call of
  \<^verbatim>\<open>verifySignature\<close> stands before the \<open>try\<close>.
\<close>

definition handle ::
  "('p \<Rightarrow> string) \<Rightarrow> (string \<Rightarrow> string \<Rightarrow> 256 word) \<Rightarrow> (string \<Rightarrow> 'p \<Rightarrow> string option)
   \<Rightarrow> 'p request \<Rightarrow> string option \<Rightarrow> exn + response \<times> string list" where
  "handle stringify hmac run_handler req secret =
     (case verifySignature stringify hmac (body req) (signature req) secret of
        Inl e \<Rightarrow> Inl e
      | Inr False \<Rightarrow> Inr (Response 401 ''Invalid signature'', [])
      | Inr True \<Rightarrow>
          (case lookup_handler (event req) of
             Registered name \<Rightarrow>
               (case run_handler name (body req) of
                  None \<Rightarrow> Inr (Response 200 ''Webhook processed successfully'', [name])
                | Some err \<Rightarrow> Inr (Response 500 ''Internal server error'', [name]))
           | Inherited returns \<Rightarrow>
               (if returns then Inr (Response 200 ''Webhook processed successfully'', [])
                else Inr (Response 500 ''Internal server error'', []))
           | Missing \<Rightarrow> Inr (Response 200 ''Event acknowledged but not processed'', [])))"

text \<open>
  The \<^verbatim>\<open>githubApp\<close> that the application hands to \<^verbatim>\<open>handle\<close> is the \<^verbatim>\<open>App\<close> of
  \<^verbatim>\<open>@octokit/app\<close>, built with \<^verbatim>\<open>webhooks: { secret: config.github.webhookSecret }\<close>. Its
  \<^verbatim>\<open>webhooks\<close> object keeps the configured secret to itself (bound into its \<^verbatim>\<open>sign\<close> and
  \<^verbatim>\<open>verify\<close>) and has no member \<^verbatim>\<open>secret\<close>: \<^verbatim>\<open>githubApp.webhooks.secret\<close> is \<open>undefined\<close>
  whatever secret is configured.
\<close>

definition app_webhooks_secret :: "string \<Rightarrow> string option" where
  "app_webhooks_secret configured = None"

text \<open>
  The route \<^verbatim>\<open>POST /webhooks/github\<close> of \<^verbatim>\<open>setupWebhooks\<close>, in the application whose
  configured secret is \<open>configured\<close>: it calls \<^verbatim>\<open>handle\<close> with \<^verbatim>\<open>this.githubApp\<close>, and its
  \<open>catch\<close> answers 500.
\<close>

definition webhook_route ::
  "('p \<Rightarrow> string) \<Rightarrow> (string \<Rightarrow> string \<Rightarrow> 256 word) \<Rightarrow> (string \<Rightarrow> 'p \<Rightarrow> string option)
   \<Rightarrow> string \<Rightarrow> 'p request \<Rightarrow> response \<times> string list" where
  "webhook_route stringify hmac run_handler configured req =
     (case handle stringify hmac run_handler req (app_webhooks_secret configured) of
        Inl e \<Rightarrow> (Response 500 ''Internal server error'', [])
      | Inr out \<Rightarrow> out)"

text \<open>A digest function and handlers for the examples (the theorems hold for every
  \<open>hmac\<close> and all handlers).\<close>

definition count_hmac :: "string \<Rightarrow> string \<Rightarrow> 256 word" where
  "count_hmac key message = of_nat (length key + length message)"

definition idle_handlers :: "string \<Rightarrow> string \<Rightarrow> string option" where
  "idle_handlers name payload = None"

section \<open>Bot commands in issue comments\<close>

definition mention :: string where
  "mention = ''@crypto-intel-bot''"

text \<open>\<^verbatim>\<open>s.split(sep)\<close> for a separator of one character.\<close>

fun split_on :: "char \<Rightarrow> string \<Rightarrow> string list" where
  "split_on sep [] = [[]]"
| "split_on sep (c # cs) =
     (if c = sep then [] # split_on sep cs
      else (case split_on sep cs of [] \<Rightarrow> [[c]] | l # ls \<Rightarrow> (c # l) # ls))"

text \<open>\<^verbatim>\<open>s.includes(t)\<close>\<close>

fun includes_str :: "string \<Rightarrow> string \<Rightarrow> bool" where
  "includes_str [] t = (t = [])"
| "includes_str (c # cs) t = (take (length t) (c # cs) = t \<or> includes_str cs t)"

text \<open>
  The character classes of \<^verbatim>\<open>/@crypto-intel-bot\s+(\w+)(?:\s+(.+))?/\<close> on code units below
  256: \<^verbatim>\<open>\s\<close> is tab, line feed, vertical tab, form feed, carriage return, space and
  no-break space; \<^verbatim>\<open>\w\<close> is \<^verbatim>\<open>[A-Za-z0-9_]\<close>; \<^verbatim>\<open>.\<close> is anything but a line terminator.
\<close>

definition is_space :: "char \<Rightarrow> bool" where
  "is_space c = (of_char c \<in> {9, 10, 11, 12, 13, 32, 160 :: nat})"

definition is_word :: "char \<Rightarrow> bool" where
  "is_word c =
     (let n = of_char c :: nat
      in (48 \<le> n \<and> n \<le> 57) \<or> (65 \<le> n \<and> n \<le> 90) \<or> n = 95 \<or> (97 \<le> n \<and> n \<le> 122))"

definition is_dot :: "char \<Rightarrow> bool" where
  "is_dot c = (of_char c \<notin> {10, 13 :: nat})"

text \<open>
  The optional group \<^verbatim>\<open>(?:\s+(.+))?\<close> against the text \<open>r\<close> that follows the command word:
  \<^verbatim>\<open>\s+\<close> gives back white space one character at a time, longest first, until \<^verbatim>\<open>.+\<close>
  finds a character; \<open>k\<close> is the number of white-space characters still to try.
\<close>

fun second_group :: "string \<Rightarrow> nat \<Rightarrow> string option" where
  "second_group r 0 = None"
| "second_group r (Suc k) =
     (if takeWhile is_dot (drop (Suc k) r) \<noteq> [] then Some (takeWhile is_dot (drop (Suc k) r))
      else second_group r k)"

text \<open>The expression matched with the mention at the very start of \<open>s\<close>: groups 1 and 2.\<close>

definition match_here :: "string \<Rightarrow> (string \<times> string option) option" where
  "match_here s =
     (if take (length mention) s = mention
      then (let r = drop (length mention) s;
                ws = takeWhile is_space r;
                r1 = dropWhile is_space r;
                w = takeWhile is_word r1;
                r2 = dropWhile is_word r1
            in if ws = [] \<or> w = [] then None
               else Some (w, second_group r2 (length (takeWhile is_space r2))))
      else None)"

text \<open>
  What it means for the expression to match at the very start of \<open>s\<close>, said without the
  matcher: \<open>s\<close> is the mention, then one or more white-space characters, then a word
  character, then anything.
\<close>

definition matches_at :: "string \<Rightarrow> bool" where
  "matches_at s =
     (\<exists>ws c b. s = mention @ ws @ c # b \<and> ws \<noteq> [] \<and> list_all is_space ws \<and> is_word c)"

text \<open>\<^verbatim>\<open>line.match(re)\<close>: the leftmost position at which the expression matches.\<close>

fun match_line :: "string \<Rightarrow> (string \<times> string option) option" where
  "match_line [] = None"
| "match_line (c # cs) =
     (case match_here (c # cs) of Some m \<Rightarrow> Some m | None \<Rightarrow> match_line cs)"

record bot_command =
  command :: string
  args :: "string list"

definition parse_line :: "string \<Rightarrow> bot_command list" where
  "parse_line line =
     (if includes_str line mention
      then (case match_line line of
              Some (w, a) \<Rightarrow>
                [\<lparr>command = w,
                  args = (case a of Some t \<Rightarrow> split_on (CHR '' '') t | None \<Rightarrow> [])\<rparr>]
            | None \<Rightarrow> [])
      else [])"

definition parseBotCommands :: "string \<Rightarrow> bot_command list" where
  "parseBotCommands commentBody = concat (map parse_line (split_on (CHR 0x0A) commentBody))"

text \<open>
  What a command does, as the list of the calls it makes on the services and on the
  origin: \<^verbatim>\<open>gasEstimation.analyzeRepository\<close>, \<^verbatim>\<open>networkMonitoring.updateDeployments\<close>,
  \<^verbatim>\<open>apiServices.getOverallStatus\<close>, and \<^verbatim>\<open>replyToCommand\<close> with one of the five messages
  (gas analysis started; network monitoring activated; current status with the serialised
  payload; unknown command with the list \<open>analyze, monitor, status\<close>; command failed).
\<close>

datatype reply =
    GasAnalysisStarted
  | MonitoringActivated
  | CurrentStatus HealthStatus
  | UnknownCommand string
  | CommandFailed string

datatype action = AnalyzeRepository | UpdateDeployments | GetOverallStatus | Reply reply

text \<open>
  The collaborators during one webhook: whether \<^verbatim>\<open>analyzeRepository\<close>,
  \<^verbatim>\<open>updateDeployments\<close> and \<^verbatim>\<open>getInstallationOctokit\<close> reject (\<open>Some message\<close>), and what the
  health probes do.
\<close>

record world =
  analyze :: "string option"
  monitor :: "string option"
  octokit :: "string option"
  health_probes :: "service \<Rightarrow> probe"

text \<open>
  \<^verbatim>\<open>executeBotCommand\<close>. \<^verbatim>\<open>replyToCommand\<close> catches what \<^verbatim>\<open>createComment\<close> throws, so no
  exception leaves either of them and the model returns the calls only.
\<close>

definition executeBotCommand :: "world \<Rightarrow> bot_command \<Rightarrow> action list" where
  "executeBotCommand w c =
     (let cmd = command c
      in if cmd = ''analyze'' then
           (case analyze w of
              None \<Rightarrow> [AnalyzeRepository, Reply GasAnalysisStarted]
            | Some message \<Rightarrow> [AnalyzeRepository, Reply (CommandFailed message)])
         else if cmd = ''monitor'' then
           (case monitor w of
              None \<Rightarrow> [UpdateDeployments, Reply MonitoringActivated]
            | Some message \<Rightarrow> [UpdateDeployments, Reply (CommandFailed message)])
         else if cmd = ''status'' then
           [GetOverallStatus, Reply (CurrentStatus (getOverallStatus (health_probes w)))]
         else [Reply (UnknownCommand cmd)])"

text \<open>\<^verbatim>\<open>handleBotMention\<close>: the rejection that leaves it, and the calls made.\<close>

definition handleBotMention :: "world \<Rightarrow> string \<Rightarrow> string option \<times> action list" where
  "handleBotMention w commentBody =
     (let commands = parseBotCommands commentBody
      in if length commands > 0
         then (case octokit w of
                 Some message \<Rightarrow> (Some message, [])
               | None \<Rightarrow> (None, concat (map (executeBotCommand w) commands)))
         else (None, []))"

text \<open>\<^verbatim>\<open>handleIssueComment\<close> on a payload of GitHub's \<open>issue_comment\<close> event (with its
  \<^verbatim>\<open>repository\<close>, \<^verbatim>\<open>issue\<close> and \<^verbatim>\<open>installation\<close>) that has the given \<^verbatim>\<open>action\<close> and
  \<^verbatim>\<open>comment.body\<close>.\<close>

definition handleIssueComment :: "world \<Rightarrow> string \<Rightarrow> string \<Rightarrow> string option \<times> action list" where
  "handleIssueComment w act commentBody =
     (if act = ''created'' \<and> includes_str commentBody mention
      then handleBotMention w commentBody
      else (None, []))"

text \<open>A world for the examples: every collaborator answers, every probe is healthy.\<close>

definition calm_world :: world where
  "calm_world =
     \<lparr>analyze = None, monitor = None, octokit = None,
      health_probes = (\<lambda>svc. Resolves \<lparr>status = ''healthy'', error = None, responseTime = Some 12\<rparr>)\<rparr>"

section \<open>Properties of the TTL cache\<close>

lemma trim_config_bounds:
  "trim_config svc = Some (ceiling, n) \<Longrightarrow> 1 \<le> n \<and> n \<le> ceiling"
  by (cases svc) auto

lemma delete_keys_drop:
  "distinct (map fst c) \<Longrightarrow> delete_keys (take n (map fst c)) c = drop n c"
proof (induction c arbitrary: n)
  case Nil
  then show ?case by (simp add: delete_keys_def)
next
  case (Cons p c)
  show ?case
  proof (cases n)
    case 0
    then show ?thesis by (simp add: delete_keys_def)
  next
    case (Suc m)
    obtain k e where p: "p = (k, e)" by (cases p)
    from Cons.prems p have notin: "k \<notin> fst ` set c" and d: "distinct (map fst c)" by auto
    have "delete_keys (take n (map fst (p # c))) (p # c)
          = delete_keys (take m (map fst c)) (AList.delete k (p # c))"
      by (simp add: delete_keys_def Suc p)
    also have "AList.delete k (p # c) = c" using notin by (simp add: p)
    also have "delete_keys (take m (map fst c)) c = drop m c" using Cons.IH [OF d] .
    finally show ?thesis by (simp add: Suc)
  qed
qed

lemma map_of_delete_keys:
  "map_of (delete_keys ks c) k = (if k \<in> set ks then None else map_of c k)"
  unfolding delete_keys_def
  by (induction ks arbitrary: c) (auto simp: AList.delete_conv')

lemma distinct_getCachedData:
  "distinct (map fst c) \<Longrightarrow> distinct (map fst (snd (getCachedData now k w c)))"
  by (auto simp: getCachedData_def AList.distinct_delete split: option.splits)

lemma length_getCachedData:
  "length (snd (getCachedData now k w c)) \<le> length c"
  by (auto simp: getCachedData_def AList.length_delete_le split: option.splits)

lemma length_update_le: "length (AList.update k e c) \<le> Suc (length c)"
  by (induction c) auto

lemma setCachedData_fifo:
  assumes "distinct (map fst c)"
  shows "setCachedData svc now k d c =
     (let c1 = AList.update k \<lparr>data = d, timestamp = now\<rparr> c
      in case trim_config svc of None \<Rightarrow> c1
         | Some (ceiling, n) \<Rightarrow> if length c1 > ceiling then drop n c1 else c1)"
  using assms
  by (auto simp: setCachedData_def Let_def delete_keys_drop AList.distinct_update split: option.splits)

lemma step_invariant:
  assumes "distinct (map fst c)" "within_ceiling svc c"
  shows "distinct (map fst (cache_step svc c x)) \<and> within_ceiling svc (cache_step svc c x)"
proof (cases x)
  case (Pair now op)
  show ?thesis
  proof (cases op)
    case (Get k w)
    have "length (snd (getCachedData now k w c)) \<le> length c" by (rule length_getCachedData)
    with assms show ?thesis
      by (auto simp: Pair Get distinct_getCachedData within_ceiling_def split: option.splits)
  next
    case (Set k d)
    let ?c1 = "AList.update k \<lparr>data = d, timestamp = now\<rparr> c"
    have d1: "distinct (map fst ?c1)" using assms(1) by (simp add: AList.distinct_update)
    have l1: "length ?c1 \<le> Suc (length c)" by (rule length_update_le)
    show ?thesis
    proof (cases "trim_config svc")
      case None
      then show ?thesis using d1 by (simp add: Pair Set setCachedData_def within_ceiling_def)
    next
      case (Some cn)
      obtain ceiling n where cn: "cn = (ceiling, n)" by (cases cn)
      from Some cn have b: "1 \<le> n \<and> n \<le> ceiling" using trim_config_bounds by simp
      from assms(2) Some cn have lc: "length c \<le> ceiling" by (simp add: within_ceiling_def)
      have eq: "setCachedData svc now k d c = (if length ?c1 > ceiling then drop n ?c1 else ?c1)"
        using setCachedData_fifo [OF assms(1), of svc now k d] Some cn by (simp add: Let_def)
      have "distinct (map fst (drop n ?c1))" using d1 by (simp add: drop_map [symmetric] distinct_drop)
      moreover have "length ?c1 > ceiling \<Longrightarrow> length (drop n ?c1) \<le> ceiling" using l1 lc b by (simp; arith)
      ultimately show ?thesis using d1 Some cn
        by (auto simp: Pair Set eq within_ceiling_def)
    qed
  qed
qed

lemma run_invariant_gen:
  "distinct (map fst c) \<Longrightarrow> within_ceiling svc c \<Longrightarrow>
   distinct (map fst (run svc ops c)) \<and> within_ceiling svc (run svc ops c)"
  unfolding run_def
proof (induction ops arbitrary: c)
  case Nil
  then show ?case by simp
next
  case (Cons x ops)
  from step_invariant [OF Cons.prems, of x] Cons.IH show ?case by simp
qed

lemma run_invariant:
  "distinct (map fst (run svc ops [])) \<and> within_ceiling svc (run svc ops [])"
  by (rule run_invariant_gen) (auto simp: within_ceiling_def split: option.splits)

lemma update_new: "k \<notin> fst ` set c \<Longrightarrow> AList.update k e c = c @ [(k, e)]"
  by (induction c) auto

lemma length_update_old: "k \<in> fst ` set c \<Longrightarrow> length (AList.update k e c) = length c"
  by (induction c) auto

lemma map_of_setCachedData_cases:
  "map_of (setCachedData svc now k d c) k' =
     (if k' = k then map_of (setCachedData svc now k d c) k
      else if map_of (setCachedData svc now k d c) k' = None then None else map_of c k')"
  by (auto simp: setCachedData_def Let_def map_of_delete_keys AList.update_conv' split: option.splits)

lemma map_of_setCachedData_same:
  "map_of (setCachedData svc now k d c) k = None \<or>
   map_of (setCachedData svc now k d c) k = Some \<lparr>data = d, timestamp = now\<rparr>"
  by (auto simp: setCachedData_def Let_def map_of_delete_keys AList.update_conv' split: option.splits)

lemma map_of_getCachedData:
  "map_of (snd (getCachedData now k w c)) k' = None \<or>
   map_of (snd (getCachedData now k w c)) k' = map_of c k'"
  by (auto simp: getCachedData_def AList.delete_conv' split: option.splits)

lemma step_keeps_entry:
  assumes "\<not> sets_key k x" "map_of c k = None \<or> map_of c k = Some e"
  shows "map_of (cache_step svc c x) k = None \<or> map_of (cache_step svc c x) k = Some e"
proof (cases x)
  case (Pair now op)
  show ?thesis
  proof (cases op)
    case (Get k' w)
    with Pair assms(2) map_of_getCachedData [of now k' w c k] show ?thesis by auto
  next
    case (Set k' d)
    with Pair assms(1) have ne: "k \<noteq> k'" by auto
    from map_of_setCachedData_cases [of svc now k' d c k] ne assms(2)
    show ?thesis by (auto simp: Pair Set split: if_splits)
  qed
qed

lemma run_keeps_entry:
  "no_set_for k ops \<Longrightarrow> map_of c k = None \<or> map_of c k = Some e \<Longrightarrow>
   map_of (run svc ops c) k = None \<or> map_of (run svc ops c) k = Some e"
  unfolding run_def no_set_for_def
proof (induction ops arbitrary: c)
  case Nil
  then show ?case by simp
next
  case (Cons x ops)
  from Cons.prems have nx: "\<not> sets_key k x" and rest: "list_all (\<lambda>x. \<not> sets_key k x) ops" by auto
  from step_keeps_entry [OF nx Cons.prems(2)] Cons.IH [OF rest] show ?case by simp
qed

lemma setCachedData_present:
  assumes d: "distinct (map fst c)" and w: "within_ceiling svc c"
  shows "map_of (setCachedData svc now k d c) k = Some \<lparr>data = d, timestamp = now\<rparr>"
proof (cases "trim_config svc")
  case None
  then show ?thesis by (simp add: setCachedData_def AList.update_conv')
next
  case (Some cn)
  obtain ceiling n where cn: "cn = (ceiling, n)" by (cases cn)
  let ?e = "\<lparr>data = d, timestamp = now\<rparr>"
  let ?c1 = "AList.update k ?e c"
  from Some cn have b: "1 \<le> n \<and> n \<le> ceiling" using trim_config_bounds by simp
  from w Some cn have lc: "length c \<le> ceiling" by (simp add: within_ceiling_def)
  show ?thesis
  proof (cases "length ?c1 > ceiling")
    case False
    then show ?thesis using Some cn by (simp add: setCachedData_def AList.update_conv')
  next
    case True
    have new: "k \<notin> fst ` set c"
    proof
      assume "k \<in> fst ` set c"
      then have "length ?c1 = length c" by (rule length_update_old)
      with True lc show False by simp
    qed
    then have c1: "?c1 = c @ [(k, ?e)]" by (rule update_new)
    have "take n (map fst ?c1) = take n (map fst c)" using b lc True by (simp add: c1)
    then have "k \<notin> set (take n (map fst ?c1))" using new by (auto dest: in_set_takeD)
    then show ?thesis using Some cn True
      by (simp add: setCachedData_def Let_def map_of_delete_keys AList.update_conv')
  qed
qed

lemma step_absent:
  assumes "\<not> sets_key k x" and "map_of c k = None"
  shows "map_of (cache_step svc c x) k = None"
  using step_keeps_entry [OF assms(1), of c "\<lparr>data = undefined, timestamp = 0\<rparr>" svc]
    step_keeps_entry [OF assms(1), of c "\<lparr>data = undefined, timestamp = 1\<rparr>" svc] assms(2)
  by auto

lemma run_absent:
  "no_set_for k ops \<Longrightarrow> map_of c k = None \<Longrightarrow> map_of (run svc ops c) k = None"
  unfolding run_def no_set_for_def
  by (induction ops arbitrary: c) (auto simp: step_absent)

lemma step_undisturbed:
  assumes "\<not> sets_key k x" and "map_of c k = Some e"
  shows "map_of (cache_step svc c x) k
           = (if stale_read k c x \<or> trims_away svc k c x then None else Some e)"
proof (cases x)
  case (Pair now op)
  show ?thesis
  proof (cases op)
    case (Get key maxAge)
    show ?thesis
    proof (cases "key = k")
      case True
      with assms(2) show ?thesis
        by (simp add: Pair Get getCachedData_def AList.delete_conv')
    next
      case False
      with assms(2) show ?thesis
        by (simp add: Pair Get getCachedData_def AList.delete_conv' split: option.splits)
    qed
  next
    case (Set key d)
    with Pair assms(1) have ne: "key \<noteq> k" by auto
    with assms(2) show ?thesis
      by (auto simp: Pair Set setCachedData_def Let_def map_of_delete_keys AList.update_conv'
          split: option.splits)
  qed
qed

lemma run_undisturbed:
  "no_set_for k ops \<Longrightarrow> map_of c k = Some e \<Longrightarrow>
   map_of (run svc ops c) k = (if undisturbed svc k ops c then Some e else None)"
proof (induction ops arbitrary: c)
  case Nil
  then show ?case by (simp add: run_def)
next
  case (Cons x ops)
  from Cons.prems(1) have nx: "\<not> sets_key k x" and rest: "no_set_for k ops"
    by (simp_all add: no_set_for_def)
  have r: "run svc (x # ops) c = run svc ops (cache_step svc c x)" by (simp add: run_def)
  show ?case
  proof (cases "stale_read k c x \<or> trims_away svc k c x")
    case True
    with step_undisturbed [OF nx Cons.prems(2), of svc]
    have "map_of (cache_step svc c x) k = None" by simp
    from run_absent [OF rest this, of svc] True show ?thesis by (auto simp: r)
  next
    case False
    with step_undisturbed [OF nx Cons.prems(2), of svc]
    have "map_of (cache_step svc c x) k = Some e" by simp
    from Cons.IH [OF rest this] False show ?thesis by (simp add: r)
  qed
qed

lemma length_delete_keys: "length (delete_keys ks c) \<le> length c"
  unfolding delete_keys_def
proof (induction ks arbitrary: c)
  case Nil
  then show ?case by simp
next
  case (Cons a ks)
  have "length (foldl (\<lambda>m key. AList.delete key m) (AList.delete a c) ks)
      \<le> length (AList.delete a c)"
    by (rule Cons.IH)
  also have "\<dots> \<le> length c" by (rule AList.length_delete_le)
  finally show ?case by simp
qed

lemma length_setCachedData: "length (setCachedData svc now k d c) \<le> Suc (length c)"
proof -
  let ?c1 = "AList.update k \<lparr>data = d, timestamp = now\<rparr> c"
  have a: "length ?c1 \<le> Suc (length c)" by (rule length_update_le)
  have "length (delete_keys ks ?c1) \<le> Suc (length c)" for ks
    using length_delete_keys [of ks ?c1] a by simp
  with a show ?thesis by (auto simp: setCachedData_def Let_def split: option.splits)
qed

lemma length_step:
  "length (cache_step svc c x) \<le> length c + length (filter is_set [x])"
proof (cases x)
  case (Pair now op)
  then show ?thesis
    using length_getCachedData [of now _ _ c] length_setCachedData [of svc now _ _ c]
    by (cases op) auto
qed

lemma length_run: "length (run svc ops c) \<le> length c + length (filter is_set ops)"
proof (induction ops arbitrary: c)
  case Nil
  then show ?case by (simp add: run_def)
next
  case (Cons x ops)
  have "run svc (x # ops) c = run svc ops (cache_step svc c x)" by (simp add: run_def)
  with Cons [of "cache_step svc c x"] length_step [of svc c x] show ?case
    by (cases "is_set x") simp_all
qed

lemma undisturbed_by_history:
  assumes "no_set_for k ops" and "map_of c k = Some e"
    and "list_all (reads_in_window k (timestamp e)) ops"
    and "case trim_config svc of None \<Rightarrow> True
         | Some (ceiling, n) \<Rightarrow> length c + length (filter is_set ops) \<le> ceiling"
  shows "undisturbed svc k ops c"
  using assms
proof (induction ops arbitrary: c)
  case Nil
  then show ?case by simp
next
  case (Cons x ops)
  from Cons.prems(1) have nx: "\<not> sets_key k x" and rest: "no_set_for k ops"
    by (simp_all add: no_set_for_def)
  from Cons.prems(3) have fx: "reads_in_window k (timestamp e) x"
    and frest: "list_all (reads_in_window k (timestamp e)) ops"
    by simp_all
  obtain now op where x: "x = (now, op)" by (cases x)
  have s: "\<not> stale_read k c x"
    using fx Cons.prems(2) by (cases op) (auto simp: x)
  have t: "\<not> trims_away svc k c x"
  proof (cases op)
    case (Get key maxAge)
    then show ?thesis by (simp add: x)
  next
    case (Set key d)
    have "length (AList.update key \<lparr>data = d, timestamp = now\<rparr> c) \<le> Suc (length c)"
      by (rule length_update_le)
    with Cons.prems(4) show ?thesis by (auto simp: x Set split: option.splits)
  qed
  from step_undisturbed [OF nx Cons.prems(2), of svc] s t
  have m: "map_of (cache_step svc c x) k = Some e" by simp
  have b: "case trim_config svc of None \<Rightarrow> True
         | Some (ceiling, n) \<Rightarrow>
             length (cache_step svc c x) + length (filter is_set ops) \<le> ceiling"
    using Cons.prems(4) length_step [of svc c x] by (auto split: option.splits if_splits)
  from Cons.IH [OF rest m frest b] s t show ?case by simp
qed

text \<open>
  Claim C5, as the code has it. Take a store with any history, \<^verbatim>\<open>set(k, v)\<close> at time \<open>t0\<close>,
  and then any calls that do not set \<open>k\<close> again. A \<^verbatim>\<open>get(k, w)\<close> at most \<open>w\<close> ms after the set
  returns \<open>v\<close> and leaves the store as it is when it follows the set directly. After
  other calls \<open>k\<close> is still in the store exactly when no call in between was a read of \<open>k\<close>
  that found it older than its window and none was a set whose overflow trim took \<open>k\<close>
  away; in that case the \<^verbatim>\<open>get(k, w)\<close> returns \<open>v\<close>, otherwise it returns absent. A
  \<^verbatim>\<open>get(k, w')\<close> more than \<open>w'\<close> ms after the set returns absent, and \<open>k\<close> is not in the store
  afterwards. In particular the \<^verbatim>\<open>get(k, w)\<close> returns \<open>v\<close> when every read of \<open>k\<close> in between
  was made within its window of the set and the sets made on the store, before and after,
  are too few to overflow it.
\<close>

theorem cache_get_after_set:
  assumes "no_set_for k ops"
  shows "let c1 = setCachedData svc t0 k v (run svc ops0 []);
             c2 = run svc ops c1
         in (t - t0 \<le> w \<longrightarrow> getCachedData t k w c1 = (Some v, c1))
          \<and> (k \<in> fst ` set c2 \<longleftrightarrow> undisturbed svc k ops c1)
          \<and> (t - t0 \<le> w \<longrightarrow>
               getCachedData t k w c2 = (if undisturbed svc k ops c1 then Some v else None, c2))
          \<and> (list_all (reads_in_window k t0) ops \<and> no_overflow svc ops0 ops \<and> t - t0 \<le> w
               \<longrightarrow> getCachedData t k w c2 = (Some v, c2))
          \<and> (t' - t0 > w' \<longrightarrow> fst (getCachedData t' k w' c2) = None
                \<and> k \<notin> fst ` set (snd (getCachedData t' k w' c2)))"
proof -
  define c0 where "c0 = run svc ops0 ([] :: 'a cache)"
  define e where "e = \<lparr>data = v, timestamp = t0\<rparr>"
  define c1 where "c1 = setCachedData svc t0 k v c0"
  define c2 where "c2 = run svc ops c1"
  have inv0: "distinct (map fst c0)" "within_ceiling svc c0"
    using run_invariant [of svc ops0] by (simp_all add: c0_def)
  have p1: "map_of c1 k = Some e"
    unfolding c1_def e_def by (rule setCachedData_present [OF inv0])
  have p2: "map_of c2 k = (if undisturbed svc k ops c1 then Some e else None)"
    unfolding c2_def by (rule run_undisturbed [OF assms p1])
  have fresh1: "t - t0 \<le> w \<longrightarrow> getCachedData t k w c1 = (Some v, c1)"
    using p1 by (simp add: getCachedData_def e_def)
  have kept: "k \<in> fst ` set c2 \<longleftrightarrow> undisturbed svc k ops c1"
  proof -
    have "k \<in> fst ` set c2 \<longleftrightarrow> map_of c2 k \<noteq> None" by (simp add: map_of_eq_None_iff)
    with p2 show ?thesis by simp
  qed
  have fresh2: "t - t0 \<le> w \<longrightarrow>
      getCachedData t k w c2 = (if undisturbed svc k ops c1 then Some v else None, c2)"
    using p2 by (simp add: getCachedData_def e_def)
  have stale: "t' - t0 > w' \<longrightarrow> fst (getCachedData t' k w' c2) = None
                \<and> k \<notin> fst ` set (snd (getCachedData t' k w' c2))"
  proof (cases "undisturbed svc k ops c1")
    case True
    with p2 show ?thesis by (simp add: getCachedData_def e_def AList.delete_notin_dom)
  next
    case False
    with p2 have n: "map_of c2 k = None" by simp
    then have "k \<notin> fst ` set c2" by (simp add: map_of_eq_None_iff)
    with n show ?thesis by (simp add: getCachedData_def)
  qed
  have history: "undisturbed svc k ops c1"
    if "list_all (reads_in_window k t0) ops" and "no_overflow svc ops0 ops"
  proof -
    have "length c0 \<le> length (filter is_set ops0)"
      using length_run [of svc ops0 "[]"] by (simp add: c0_def)
    moreover have "length c1 \<le> Suc (length c0)"
      unfolding c1_def by (rule length_setCachedData)
    ultimately have "case trim_config svc of None \<Rightarrow> True
         | Some (ceiling, n) \<Rightarrow> length c1 + length (filter is_set ops) \<le> ceiling"
      using that(2) by (auto simp: no_overflow_def split: option.splits)
    moreover from that(1) have "list_all (reads_in_window k (timestamp e)) ops"
      by (simp add: e_def)
    ultimately show ?thesis using undisturbed_by_history [OF assms p1] by blast
  qed
  with fresh2 have fresh3: "list_all (reads_in_window k t0) ops \<and> no_overflow svc ops0 ops
      \<and> t - t0 \<le> w \<longrightarrow> getCachedData t k w c2 = (Some v, c2)"
    by simp
  from fresh1 kept fresh2 fresh3 stale show ?thesis
    unfolding Let_def c2_def [symmetric] c1_def [symmetric] c0_def [symmetric] by blast
qed

text \<open>
  Claim C6, for the stores that have a ceiling (all but the one of DeFiMonitoringService).
  \<^verbatim>\<open>setCachedData\<close> is a total function with no error result: nothing in it throws. After
  every set on a store with any history the size is at most the ceiling, and on an
  overflow the store loses exactly its first \<open>n\<close> entries in insertion order, whatever
  was read or rewritten since they were inserted.
\<close>

theorem setCachedData_trim_fifo:
  assumes "trim_config svc = Some (ceiling, n)"
  shows "let c = run svc ops [];
             c1 = AList.update k \<lparr>data = v, timestamp = now\<rparr> c;
             c' = setCachedData svc now k v c
         in length c' \<le> ceiling \<and> c' = (if length c1 > ceiling then drop n c1 else c1)"
proof -
  define c where "c = run svc ops ([] :: 'a cache)"
  have inv: "distinct (map fst c)" "within_ceiling svc c"
    using run_invariant [of svc ops] by (simp_all add: c_def)
  have "within_ceiling svc (cache_step svc c (now, Set k v))"
    using step_invariant [OF inv] by blast
  then have len: "length (setCachedData svc now k v c) \<le> ceiling"
    using assms by (simp add: within_ceiling_def)
  have eq: "setCachedData svc now k v c =
      (if length (AList.update k \<lparr>data = v, timestamp = now\<rparr> c) > ceiling
       then drop n (AList.update k \<lparr>data = v, timestamp = now\<rparr> c)
       else AList.update k \<lparr>data = v, timestamp = now\<rparr> c)"
    using setCachedData_fifo [OF inv(1), of svc now k v] assms by (simp add: Let_def)
  from len eq show ?thesis unfolding Let_def c_def [symmetric] by simp
qed

theorem cache_get_after_set_witness:
  "no_set_for ''k'' [(5, Get ''k'' 1000), (6, Set ''other'' (1::nat))]
   \<and> (10::int) - 0 \<le> 100
   \<and> list_all (reads_in_window ''k'' 0) [(5, Get ''k'' 1000), (6, Set ''other'' (1::nat))]
   \<and> no_overflow CoinGecko [] [(5, Get ''k'' 1000), (6, Set ''other'' (1::nat))]
   \<and> snd (getCachedData 10 ''k'' 100
             (run CoinGecko [(5, Get ''k'' 1000), (6, Set ''other'' (1::nat))]
                (setCachedData CoinGecko 0 ''k'' 7 (run CoinGecko [] []))))
       = run CoinGecko [(5, Get ''k'' 1000), (6, Set ''other'' (1::nat))]
           (setCachedData CoinGecko 0 ''k'' 7 (run CoinGecko [] []))
   \<and> undisturbed CoinGecko ''k'' [(5, Get ''k'' 1000), (6, Set ''other'' (1::nat))]
        (setCachedData CoinGecko 0 ''k'' 7 (run CoinGecko [] []))
   \<and> ''k'' \<in> fst ` set (run CoinGecko [(5, Get ''k'' 1000), (6, Set ''other'' (1::nat))]
                           (setCachedData CoinGecko 0 ''k'' 7 (run CoinGecko [] [])))
   \<and> fst (getCachedData 10 ''k'' 100
             (run CoinGecko [(5, Get ''k'' 1000), (6, Set ''other'' (1::nat))]
                (setCachedData CoinGecko 0 ''k'' 7 (run CoinGecko [] [])))) = Some 7
   \<and> (200::int) - 0 > 100
   \<and> fst (getCachedData 200 ''k'' 100
             (run CoinGecko [(5, Get ''k'' 1000), (6, Set ''other'' (1::nat))]
                (setCachedData CoinGecko 0 ''k'' 7 (run CoinGecko [] [])))) = None
   \<and> no_set_for ''k'' [(20, Get ''k'' 10 :: nat cache_op)]
   \<and> \<not> undisturbed CoinGecko ''k'' [(20, Get ''k'' 10)]
          (setCachedData CoinGecko 0 ''k'' (7::nat) (run CoinGecko [] []))
   \<and> ''k'' \<notin> fst ` set (run CoinGecko [(20, Get ''k'' 10)]
                           (setCachedData CoinGecko 0 ''k'' (7::nat) (run CoinGecko [] [])))"
proof -
  have h2: "no_set_for ''k'' [(20, Get ''k'' 10 :: nat cache_op)]"
    by (simp add: no_set_for_def)
  have u2: "\<not> undisturbed CoinGecko ''k'' [(20, Get ''k'' 10)]
          (setCachedData CoinGecko 0 ''k'' (7::nat) (run CoinGecko [] []))"
    by (simp add: run_def setCachedData_def)
  from cache_get_after_set [OF h2, where svc = CoinGecko and ?t0.0 = 0 and v = "7::nat"
      and ?ops0.0 = "[]" and t = 30 and w = 100 and t' = 200 and w' = 100] u2
  have gone: "''k'' \<notin> fst ` set (run CoinGecko [(20, Get ''k'' 10)]
                           (setCachedData CoinGecko 0 ''k'' (7::nat) (run CoinGecko [] [])))"
    by (simp add: Let_def)
  have h: "no_set_for ''k'' [(5, Get ''k'' 1000), (6, Set ''other'' (1::nat))]"
    by (simp add: no_set_for_def)
  have u: "undisturbed CoinGecko ''k'' [(5, Get ''k'' 1000), (6, Set ''other'' (1::nat))]
        (setCachedData CoinGecko 0 ''k'' 7 (run CoinGecko [] []))"
    by (simp add: run_def setCachedData_def getCachedData_def)
  have f: "list_all (reads_in_window ''k'' 0) [(5, Get ''k'' 1000), (6, Set ''other'' (1::nat))]"
    "no_overflow CoinGecko [] [(5, Get ''k'' 1000), (6, Set ''other'' (1::nat))]"
    by (simp_all add: no_overflow_def)
  from cache_get_after_set [OF h, where svc = CoinGecko and ?t0.0 = 0 and v = 7 and ?ops0.0 = "[]"
      and t = 10 and w = 100 and t' = 200 and w' = 100] u h f
  have kept: "no_set_for ''k'' [(5, Get ''k'' 1000), (6, Set ''other'' (1::nat))]
   \<and> (10::int) - 0 \<le> 100
   \<and> list_all (reads_in_window ''k'' 0) [(5, Get ''k'' 1000), (6, Set ''other'' (1::nat))]
   \<and> no_overflow CoinGecko [] [(5, Get ''k'' 1000), (6, Set ''other'' (1::nat))]
   \<and> snd (getCachedData 10 ''k'' 100
             (run CoinGecko [(5, Get ''k'' 1000), (6, Set ''other'' (1::nat))]
                (setCachedData CoinGecko 0 ''k'' 7 (run CoinGecko [] []))))
       = run CoinGecko [(5, Get ''k'' 1000), (6, Set ''other'' (1::nat))]
           (setCachedData CoinGecko 0 ''k'' 7 (run CoinGecko [] []))
   \<and> undisturbed CoinGecko ''k'' [(5, Get ''k'' 1000), (6, Set ''other'' (1::nat))]
        (setCachedData CoinGecko 0 ''k'' 7 (run CoinGecko [] []))
   \<and> ''k'' \<in> fst ` set (run CoinGecko [(5, Get ''k'' 1000), (6, Set ''other'' (1::nat))]
                           (setCachedData CoinGecko 0 ''k'' 7 (run CoinGecko [] [])))
   \<and> fst (getCachedData 10 ''k'' 100
             (run CoinGecko [(5, Get ''k'' 1000), (6, Set ''other'' (1::nat))]
                (setCachedData CoinGecko 0 ''k'' 7 (run CoinGecko [] [])))) = Some 7
   \<and> (200::int) - 0 > 100
   \<and> fst (getCachedData 200 ''k'' 100
             (run CoinGecko [(5, Get ''k'' 1000), (6, Set ''other'' (1::nat))]
                (setCachedData CoinGecko 0 ''k'' 7 (run CoinGecko [] [])))) = None"
    by (simp add: Let_def)
  from kept h2 u2 gone show ?thesis by blast
qed

text \<open>
  Claim C5 as it is written fails. In the CoinDesk store (ceiling 50, trim of 10) the key
  \<open>k\<close> is set at time 0 and 50 other keys are set after it; the 51st entry overflows the
  store, the trim removes the 10 earliest keys, \<open>k\<close> among them, and a read 1 ms later with
  a window of 60 s finds nothing, although \<open>k\<close> was never set again. In the CoinGecko
  store a read of \<open>k\<close> at time 20 with a window of 10 evicts the entry, and a read at
  time 30 with a window of 100 then finds nothing.
\<close>

theorem cache_get_after_set_counterexample:
  "no_set_for ''k'' (fill 50) \<and> (1::int) - 0 \<le> 60 * 1000
   \<and> fst (getCachedData 1 ''k'' (60 * 1000)
            (run CoinDesk (fill 50) (setCachedData CoinDesk 0 ''k'' 7 []))) = None
   \<and> no_set_for ''k'' [(20, Get ''k'' 10 :: nat cache_op)] \<and> (30::int) - 0 \<le> 100
   \<and> fst (getCachedData 30 ''k'' 100
            (run CoinGecko [(20, Get ''k'' 10)] (setCachedData CoinGecko 0 ''k'' (7::nat) [])))
       = None"
  by code_simp

theorem setCachedData_trim_fifo_witness:
  "trim_config CoinDesk = Some (50, 10)
   \<and> length (setCachedData CoinDesk 9 ''k'' (7::nat) (run CoinDesk (fill 50) [])) = 41
   \<and> map fst (setCachedData CoinDesk 9 ''k'' (7::nat) (run CoinDesk (fill 50) []))
       = drop 10 (map fst (run CoinDesk (fill 50) [])) @ [''k'']"
proof -
  have h: "trim_config CoinDesk = Some (50, 10)" by simp
  have len: "length (AList.update ''k'' \<lparr>data = 7::nat, timestamp = 9\<rparr> (run CoinDesk (fill 50) []))
             = 51"
    by code_simp
  have upd: "AList.update ''k'' \<lparr>data = 7::nat, timestamp = 9\<rparr> (run CoinDesk (fill 50) [])
             = run CoinDesk (fill 50) [] @ [(''k'', \<lparr>data = 7, timestamp = 9\<rparr>)]"
    by code_simp
  have len0: "length (run CoinDesk (fill 50) ([] :: nat cache)) = 50"
    by code_simp
  from setCachedData_trim_fifo [OF h, of "fill 50" "''k''" 7 9] len
  have eq: "setCachedData CoinDesk 9 ''k'' (7::nat) (run CoinDesk (fill 50) [])
            = drop 10 (AList.update ''k'' \<lparr>data = 7::nat, timestamp = 9\<rparr> (run CoinDesk (fill 50) []))"
    by (simp add: Let_def)
  show ?thesis using h len0 by (simp add: eq upd drop_map)
qed

text \<open>
  Claim C6 as it is written fails for the store of DeFiMonitoringService, whose
  \<^verbatim>\<open>setCachedData\<close> has no ceiling and no trim: after 101 sets with different keys it holds
  101 entries, more than either ceiling used in the system.
\<close>

theorem setCachedData_trim_fifo_counterexample:
  "trim_config DeFiMonitoring = None \<and> length (run DeFiMonitoring (fill 101) []) = 101"
  by code_simp

section \<open>Properties of the health aggregator\<close>

lemma fst_probe_service: "fst (probe_service p h) = entry_of p"
  by (cases p) simp_all

lemma snd_probe_service: "snd (probe_service p h) = (failing p \<or> h)"
  by (cases p) auto

lemma getOverallStatus_services:
  "services (getOverallStatus ps)
     = map (\<lambda>(name, svc). (name, entry_of (ps svc))) registered_services"
  by (simp add: getOverallStatus_def registered_services_def fst_probe_service
      del: entry_of.simps)

lemma getOverallStatus_overall:
  "overall (getOverallStatus ps)
     = (if list_ex (\<lambda>(name, svc). failing (ps svc)) registered_services
        then ''degraded'' else ''healthy'')"
  by (simp add: getOverallStatus_def registered_services_def snd_probe_service)

text \<open>
  Claim C7. \<^verbatim>\<open>getOverallStatus\<close> returns for every probe behaviour; its result has one
  entry per registered service, in order, each the entry of that service's own probe; a
  probe that throws leaves \<^verbatim>\<open>{ status: 'error', error: message }\<close>; and \<open>overall\<close> is
  \<open>degraded\<close> exactly when some probe reports \<open>error\<close> or throws.
\<close>

theorem getOverallStatus_isolates:
  "services (getOverallStatus ps)
     = map (\<lambda>(name, svc). (name, entry_of (ps svc))) registered_services
   \<and> entry_of (Rejects message) = \<lparr>status = ''error'', error = Some message, responseTime = None\<rparr>
   \<and> entry_of (Resolves r) = r
   \<and> overall (getOverallStatus ps)
       = (if list_ex (\<lambda>(name, svc). failing (ps svc)) registered_services
          then ''degraded'' else ''healthy'')"
  using getOverallStatus_services [of ps] getOverallStatus_overall [of ps] by simp

theorem getOverallStatus_isolates_witness:
  "services (getOverallStatus one_throws)
     = [(''coingecko'', \<lparr>status = ''healthy'', error = None, responseTime = Some 12\<rparr>),
        (''coindesk'', \<lparr>status = ''error'', error = Some ''socket hang up'', responseTime = None\<rparr>),
        (''arkhamIntel'', \<lparr>status = ''unavailable'', error = Some ''API key not configured'',
                            responseTime = None\<rparr>),
        (''gasEstimation'', \<lparr>status = ''healthy'', error = None, responseTime = Some 12\<rparr>),
        (''networkMonitoring'', \<lparr>status = ''healthy'', error = None, responseTime = Some 12\<rparr>),
        (''defiMonitoring'', \<lparr>status = ''healthy'', error = None, responseTime = Some 12\<rparr>)]
   \<and> overall (getOverallStatus one_throws) = ''degraded''"
  using getOverallStatus_isolates [of one_throws]
  by (simp add: registered_services_def)

section \<open>Properties of the rate-limited client\<close>

lemma makeRequest_client:
  "snd (snd (makeRequest net late endpoint now c))
     = c\<lparr>lastRequestTime := issue_time late now c,
         sent := sent c @ [(endpoint, issue_time late now c)]\<rparr>"
  by (simp add: makeRequest_def issue_time_def Let_def)

lemma makeRequest_result:
  "fst (makeRequest net late endpoint now c) = fst (net endpoint (issue_time late now c))
   \<and> fst (snd (makeRequest net late endpoint now c))
       = issue_time late now c + int (snd (net endpoint (issue_time late now c)))"
  by (simp add: makeRequest_def issue_time_def Let_def)

lemma issue_time_bounds:
  "now \<le> issue_time late now c
   \<and> (lastRequestTime c \<le> now \<longrightarrow> lastRequestTime c + rateLimitDelay c \<le> issue_time late now c)"
  by (simp add: issue_time_def)

text \<open>
  Claim C4, as the code has it. Two sequential calls of \<^verbatim>\<open>makeRequest\<close> on one client, the
  second starting \<open>gap\<close> ms after the first has settled: the two outbound requests are
  issued at least \<^verbatim>\<open>rateLimitDelay\<close> apart (the \<^verbatim>\<open>lastRequestTime\<close> values that the two calls
  record), and so at least \<^verbatim>\<open>rateLimitDelay\<close> passes from the start of the first call to the
  moment the second call settles. Nothing is said about the distance of the two starts.
\<close>

theorem sequential_requests_are_paced:
  "(case makeRequest net late1 e1 now1 c of
      (r1, fin1, c1) \<Rightarrow>
        (case makeRequest net late2 e2 (fin1 + int gap) c1 of
           (r2, fin2, c2) \<Rightarrow>
             rateLimitDelay c \<le> lastRequestTime c2 - lastRequestTime c1
             \<and> sent c2 = sent c @ [(e1, lastRequestTime c1), (e2, lastRequestTime c2)]
             \<and> now1 \<le> lastRequestTime c1
             \<and> rateLimitDelay c \<le> fin2 - now1))"
proof -
  define t1 where "t1 = issue_time late1 now1 c"
  define c1 where "c1 = c\<lparr>lastRequestTime := t1, sent := sent c @ [(e1, t1)]\<rparr>"
  define fin1 where "fin1 = t1 + int (snd (net e1 t1))"
  define t2 where "t2 = issue_time late2 (fin1 + int gap) c1"
  have m1: "makeRequest net late1 e1 now1 c = (fst (net e1 t1), fin1, c1)"
    using makeRequest_client [of net late1 e1 now1 c] makeRequest_result [of net late1 e1 now1 c]
    by (simp add: t1_def c1_def fin1_def prod_eq_iff)
  have m2: "makeRequest net late2 e2 (fin1 + int gap) c1
            = (fst (net e2 t2), t2 + int (snd (net e2 t2)),
               c1\<lparr>lastRequestTime := t2, sent := sent c1 @ [(e2, t2)]\<rparr>)"
    using makeRequest_client [of net late2 e2 "fin1 + int gap" c1]
      makeRequest_result [of net late2 e2 "fin1 + int gap" c1]
    by (simp add: t2_def prod_eq_iff)
  have a: "now1 \<le> t1" using issue_time_bounds [of now1 late1 c] by (simp add: t1_def)
  have "lastRequestTime c1 \<le> fin1 + int gap" by (simp add: c1_def fin1_def)
  then have b: "t1 + rateLimitDelay c \<le> t2"
    using issue_time_bounds [of "fin1 + int gap" late2 c1] by (simp add: t2_def c1_def)
  from a b show ?thesis by (simp add: m1 m2) (simp add: c1_def)
qed

theorem sequential_requests_are_paced_witness:
  "(case makeRequest quick_net 0 ''/ping'' 5000 coindesk_fresh of
      (r1, fin1, c1) \<Rightarrow>
        (case makeRequest quick_net 2 ''/ping'' (fin1 + int 0) c1 of
           (r2, fin2, c2) \<Rightarrow>
             lastRequestTime c1 = 5000 \<and> lastRequestTime c2 = 6002 \<and> fin2 = 6302
             \<and> rateLimitDelay coindesk_fresh = 1000
             \<and> sent c2 = [(''/ping'', 5000), (''/ping'', 6002)]))"
  using sequential_requests_are_paced [where c = coindesk_fresh and net = quick_net and ?late1.0 = 0
      and ?e1.0 = "''/ping''" and ?now1.0 = 5000 and ?late2.0 = 2 and ?e2.0 = "''/ping''" and gap = 0]
  by (simp add: makeRequest_def quick_net_def coindesk_fresh_def Let_def)

text \<open>
  Claim C4 as it is written fails. On the CoinDesk client (\<^verbatim>\<open>rateLimitDelay\<close> 1000,
  \<^verbatim>\<open>lastRequestTime\<close> 0) a first call starts at clock reading 5000; more than a second
  has passed since the last request, so it issues its request at once, and with an
  answer after 300 ms it settles at 5300. A second, sequential call can start at 5300,
  only 300 ms after the first call started; it is the request of that second call that
  waits, until 6000.
\<close>

theorem sequential_requests_are_paced_counterexample:
  "fst (snd (makeRequest quick_net 0 ''/ping'' 5000 coindesk_fresh)) = 5300
   \<and> (5300::int) - 5000 < rateLimitDelay coindesk_fresh
   \<and> lastRequestTime (snd (snd (makeRequest quick_net 0 ''/ping'' 5300
        (snd (snd (makeRequest quick_net 0 ''/ping'' 5000 coindesk_fresh)))))) = 6000"
  by (simp add: makeRequest_def quick_net_def coindesk_fresh_def Let_def)

lemma getCurrentBitcoinPrice_hit:
  assumes "fresh_price now c"
  shows "\<exists>hit. getCurrentBitcoinPrice net late now c = (Inr hit, now, c)"
proof -
  from assms obtain e where e: "map_of (cache c) ''btc-current-price'' = Some e"
    and fresh: "\<not> now - timestamp e > 60 * 1000" and t: "truthy (Some (data e))"
    by (auto simp: fresh_price_def getCachedData_def split: option.splits if_splits)
  then show ?thesis
    by (simp add: getCurrentBitcoinPrice_def getCachedData_def Let_def case_prod_beta)
qed

lemma getCurrentBitcoinPrice_miss:
  assumes "\<not> fresh_price now c"
  shows "sent (snd (snd (getCurrentBitcoinPrice net late now c)))
           = sent c @ [(''/bpi/currentprice.json'', issue_time late now c)]
       \<and> (case fst (getCurrentBitcoinPrice net late now c) of Inl err \<Rightarrow> ''error'' | Inr d \<Rightarrow> ''healthy'')
           = live_status (fst (net ''/bpi/currentprice.json'' (issue_time late now c)))"
proof -
  define c1 where "c1 = c\<lparr>cache := snd (getCachedData now ''btc-current-price'' (60 * 1000) (cache c))\<rparr>"
  have it: "issue_time late now c1 = issue_time late now c" by (simp add: issue_time_def c1_def)
  have s1: "sent c1 = sent c" by (simp add: c1_def)
  obtain r fin c2 where m: "makeRequest net late ''/bpi/currentprice.json'' now c1 = (r, fin, c2)"
    by (cases "makeRequest net late ''/bpi/currentprice.json'' now c1") auto
  from m makeRequest_client [of net late "''/bpi/currentprice.json''" now c1]
    makeRequest_result [of net late "''/bpi/currentprice.json''" now c1]
  have c2: "sent c2 = sent c @ [(''/bpi/currentprice.json'', issue_time late now c)]"
    and r: "r = fst (net ''/bpi/currentprice.json'' (issue_time late now c))"
    by (simp_all add: it s1)
  from assms have miss: "\<not> truthy (fst (getCachedData now ''btc-current-price'' (60 * 1000) (cache c)))"
    by (simp add: fresh_price_def)
  have g: "getCurrentBitcoinPrice net late now c =
      (case (r, fin, c2) of
         (Inl err, fin, c2) \<Rightarrow> (Inl err, fin, c2)
       | (Inr d, fin, c2) \<Rightarrow>
           (let c3 = c2\<lparr>cache := setCachedData CoinDesk fin ''btc-current-price'' d (cache c2)\<rparr>
            in if d = Nullish then (Inl ''TypeError: Cannot read properties of null'', fin, c3)
               else (Inr d, fin, c3)))"
    using miss m by (simp add: getCurrentBitcoinPrice_def Let_def case_prod_beta c1_def)
  have "sent (snd (snd (getCurrentBitcoinPrice net late now c)))
           = sent c @ [(''/bpi/currentprice.json'', issue_time late now c)]
       \<and> (case fst (getCurrentBitcoinPrice net late now c) of Inl err \<Rightarrow> ''error'' | Inr d \<Rightarrow> ''healthy'')
           = live_status r"
  proof (cases r)
    case (Inl err)
    with g c2 show ?thesis by simp
  next
    case (Inr d)
    with g c2 show ?thesis by (cases d) (simp_all add: Let_def)
  qed
  with r show ?thesis by simp
qed

lemma ask_providers_result:
  "ask_providers call providers (asked, healthyCount)
     = (asked @ providers,
        healthyCount + length (filter (\<lambda>networkName. \<not> isl (call networkName)) providers))"
  by (induction providers arbitrary: asked healthyCount) (auto split: sum.splits)

lemma ask_networks_result:
  "ask_networks call providers (asked, healthyCount)
     = (asked @ providers,
        healthyCount + length (filter (\<lambda>networkName. \<not> isl (call networkName)) providers))"
  by (induction providers arbitrary: asked healthyCount) (auto split: sum.splits)

lemma filter_some: "(filter P xs = []) = (\<not> list_ex P xs)"
  by (induction xs) auto

lemma healthCheck_gas_live:
  "snd (healthCheck_gas call providers) = providers
   \<and> status (fst (healthCheck_gas call providers))
       = (if some_answer call providers then ''healthy'' else ''error'')"
  by (simp add: healthCheck_gas_def ask_providers_result some_answer_def filter_some)

lemma healthCheck_network_live:
  "snd (healthCheck_network call providers) = providers
   \<and> status (fst (healthCheck_network call providers))
       = (if some_answer call providers then ''healthy'' else ''error'')"
  by (simp add: healthCheck_network_def ask_networks_result some_answer_def filter_some)

lemma healthCheck_defi_constant:
  "status (fst (healthCheck_defi subgraph now d)) = ''healthy''
   \<and> fst (snd (healthCheck_defi subgraph now d))
       = (if fresh_uniswap now d then [] else [(''subgraphUrl'', now)])"
  by (simp add: healthCheck_defi_def fresh_uniswap_def Let_def case_prod_beta
      split: sum.splits)

text \<open>
  Claim C8, as the code has it, for the six registered services. The aggregate holds,
  under each service's name, what that service's probe reported during this call; it
  keeps nothing between calls. Three probes make a live check on every call and report
  its outcome: the one of CoinGeckoService issues \<^verbatim>\<open>/ping\<close>, the ones of GasEstimationService
  and NetworkMonitoringService ask every provider. Three do not. The probe of
  CoinDeskService goes through \<^verbatim>\<open>getCurrentBitcoinPrice\<close>: with a truthy price at most 60 s
  old in the cache it reports \<open>healthy\<close> and issues no request, whatever the network would
  answer; without one it issues one live request and reports its outcome. The probe of
  DeFiMonitoringService reports \<open>healthy\<close> whatever its calls do, and posts to the subgraph
  only without truthy uniswap data at most five minutes old in its cache. The probe of
  ArkhamIntelService issues no request: its status says only whether an API key is set.
\<close>

theorem probes_and_the_price_cache:
  "map_of (services (getOverallStatus
        ((\<lambda>svc. NoHealthCheck)
           (CoinGecko := Resolves (fst (healthCheck_coingecko net late now g)),
            CoinDesk := Resolves (fst (healthCheck_coindesk net late now c)),
            ArkhamIntel := Resolves (healthCheck_arkham apiKey elapsed),
            GasEstimation := Resolves (fst (healthCheck_gas getBlockNumber gas_providers)),
            NetworkMonitoring := Resolves (fst (healthCheck_network getBoth net_providers)),
            DeFiMonitoring := Resolves (fst (healthCheck_defi subgraph now d))))))
     = [''coingecko'' \<mapsto> fst (healthCheck_coingecko net late now g),
        ''coindesk'' \<mapsto> fst (healthCheck_coindesk net late now c),
        ''arkhamIntel'' \<mapsto> healthCheck_arkham apiKey elapsed,
        ''gasEstimation'' \<mapsto> fst (healthCheck_gas getBlockNumber gas_providers),
        ''networkMonitoring'' \<mapsto> fst (healthCheck_network getBoth net_providers),
        ''defiMonitoring'' \<mapsto> fst (healthCheck_defi subgraph now d)]
   \<and> sent (snd (snd (healthCheck_coingecko net late now g)))
       = sent g @ [(''/ping'', issue_time late now g)]
   \<and> status (fst (healthCheck_coingecko net late now g))
       = live_status (fst (net ''/ping'' (issue_time late now g)))
   \<and> snd (healthCheck_gas getBlockNumber gas_providers) = gas_providers
   \<and> status (fst (healthCheck_gas getBlockNumber gas_providers))
       = (if some_answer getBlockNumber gas_providers then ''healthy'' else ''error'')
   \<and> snd (healthCheck_network getBoth net_providers) = net_providers
   \<and> status (fst (healthCheck_network getBoth net_providers))
       = (if some_answer getBoth net_providers then ''healthy'' else ''error'')
   \<and> sent (snd (snd (healthCheck_coindesk net late now c)))
       = (if fresh_price now c then sent c
          else sent c @ [(''/bpi/currentprice.json'', issue_time late now c)])
   \<and> status (fst (healthCheck_coindesk net late now c))
       = (if fresh_price now c then ''healthy''
          else live_status (fst (net ''/bpi/currentprice.json'' (issue_time late now c))))
   \<and> status (fst (healthCheck_defi subgraph now d)) = ''healthy''
   \<and> fst (snd (healthCheck_defi subgraph now d))
       = (if fresh_uniswap now d then [] else [(''subgraphUrl'', now)])
   \<and> status (healthCheck_arkham apiKey elapsed)
       = (if present apiKey then ''healthy'' else ''unavailable'')"
proof -
  obtain r fin c' where m: "makeRequest net late ''/ping'' now g = (r, fin, c')"
    by (cases "makeRequest net late ''/ping'' now g") auto
  from m makeRequest_client [of net late "''/ping''" now g]
    makeRequest_result [of net late "''/ping''" now g]
  have c': "sent c' = sent g @ [(''/ping'', issue_time late now g)]"
    and r: "r = fst (net ''/ping'' (issue_time late now g))"
    by simp_all
  have gecko_r: "sent (snd (snd (healthCheck_coingecko net late now g)))
        = sent g @ [(''/ping'', issue_time late now g)]
      \<and> status (fst (healthCheck_coingecko net late now g)) = live_status r"
  proof (cases r)
    case (Inl err)
    with m c' show ?thesis by (simp add: healthCheck_coingecko_def)
  next
    case (Inr d)
    with m c' show ?thesis by (cases d) (simp_all add: healthCheck_coingecko_def)
  qed
  with r have gecko: "sent (snd (snd (healthCheck_coingecko net late now g)))
        = sent g @ [(''/ping'', issue_time late now g)]
      \<and> status (fst (healthCheck_coingecko net late now g))
        = live_status (fst (net ''/ping'' (issue_time late now g)))"
    by simp
  have desk: "sent (snd (snd (healthCheck_coindesk net late now c)))
       = (if fresh_price now c then sent c
          else sent c @ [(''/bpi/currentprice.json'', issue_time late now c)])
   \<and> status (fst (healthCheck_coindesk net late now c))
       = (if fresh_price now c then ''healthy''
          else live_status (fst (net ''/bpi/currentprice.json'' (issue_time late now c))))"
  proof (cases "fresh_price now c")
    case True
    from getCurrentBitcoinPrice_hit [OF True, of net late] obtain hit where
      "getCurrentBitcoinPrice net late now c = (Inr hit, now, c)" by blast
    with True show ?thesis by (simp add: healthCheck_coindesk_def)
  next
    case False
    obtain r' fin' c'' where g: "getCurrentBitcoinPrice net late now c = (r', fin', c'')"
      by (cases "getCurrentBitcoinPrice net late now c") auto
    with getCurrentBitcoinPrice_miss [OF False, of net late] False show ?thesis
      by (cases r') (simp_all add: healthCheck_coindesk_def)
  qed
  have agg: "map_of (services (getOverallStatus
        ((\<lambda>svc. NoHealthCheck)
           (CoinGecko := Resolves (fst (healthCheck_coingecko net late now g)),
            CoinDesk := Resolves (fst (healthCheck_coindesk net late now c)),
            ArkhamIntel := Resolves (healthCheck_arkham apiKey elapsed),
            GasEstimation := Resolves (fst (healthCheck_gas getBlockNumber gas_providers)),
            NetworkMonitoring := Resolves (fst (healthCheck_network getBoth net_providers)),
            DeFiMonitoring := Resolves (fst (healthCheck_defi subgraph now d))))))
     = [''coingecko'' \<mapsto> fst (healthCheck_coingecko net late now g),
        ''coindesk'' \<mapsto> fst (healthCheck_coindesk net late now c),
        ''arkhamIntel'' \<mapsto> healthCheck_arkham apiKey elapsed,
        ''gasEstimation'' \<mapsto> fst (healthCheck_gas getBlockNumber gas_providers),
        ''networkMonitoring'' \<mapsto> fst (healthCheck_network getBoth net_providers),
        ''defiMonitoring'' \<mapsto> fst (healthCheck_defi subgraph now d)]"
    by (rule ext) (simp add: getOverallStatus_services registered_services_def)
  have arkham: "status (healthCheck_arkham apiKey elapsed)
       = (if present apiKey then ''healthy'' else ''unavailable'')"
    by (simp add: healthCheck_arkham_def)
  from agg gecko desk arkham healthCheck_gas_live [of getBlockNumber gas_providers]
    healthCheck_network_live [of getBoth net_providers]
    healthCheck_defi_constant [of subgraph now d]
  show ?thesis by blast
qed

theorem probes_and_the_price_cache_witness:
  "fresh_price 31000 coindesk_warm \<and> \<not> fresh_price 31000 coindesk_fresh
   \<and> \<not> fresh_uniswap 31000 []
   \<and> sent (snd (snd (healthCheck_coingecko down_net 0 31000 coindesk_fresh))) = [(''/ping'', 31000)]
   \<and> status (fst (healthCheck_coingecko down_net 0 31000 coindesk_fresh)) = ''error''
   \<and> sent (snd (snd (healthCheck_coindesk quick_net 0 31000 coindesk_warm))) = sent coindesk_warm
   \<and> status (fst (healthCheck_coindesk quick_net 0 31000 coindesk_warm)) = ''healthy''
   \<and> sent (snd (snd (healthCheck_coindesk down_net 0 31000 coindesk_fresh)))
       = [(''/bpi/currentprice.json'', 31000)]
   \<and> status (fst (healthCheck_coindesk down_net 0 31000 coindesk_fresh)) = ''error''
   \<and> snd (healthCheck_gas only_ethereum [''ethereum'', ''polygon'']) = [''ethereum'', ''polygon'']
   \<and> status (fst (healthCheck_gas only_ethereum [''ethereum'', ''polygon''])) = ''healthy''
   \<and> status (fst (healthCheck_network no_provider [''ethereum'', ''polygon''])) = ''error''
   \<and> status (fst (healthCheck_defi subgraph_down 31000 [])) = ''healthy''
   \<and> fst (snd (healthCheck_defi subgraph_down 31000 [])) = [(''subgraphUrl'', 31000)]
   \<and> status (healthCheck_arkham (Some ''key'') 0) = ''healthy''
   \<and> status (healthCheck_arkham None 0) = ''unavailable''"
proof -
  have a: "fresh_price 31000 coindesk_warm" and b: "\<not> fresh_price 31000 coindesk_fresh"
    by (simp_all add: fresh_price_def getCachedData_def coindesk_warm_def coindesk_fresh_def)
  have u: "\<not> fresh_uniswap 31000 []" by (simp add: fresh_uniswap_def getCachedData_def)
  have i: "issue_time 0 31000 coindesk_fresh = 31000"
    by (simp add: issue_time_def coindesk_fresh_def)
  have s: "sent coindesk_fresh = []" by (simp add: coindesk_fresh_def)
  have p: "some_answer only_ethereum [''ethereum'', ''polygon'']"
    "\<not> some_answer no_provider [''ethereum'', ''polygon'']"
    by (simp_all add: some_answer_def only_ethereum_def no_provider_def)
  note down = probes_and_the_price_cache [where net = down_net and late = 0 and now = 31000
      and g = coindesk_fresh and c = coindesk_fresh and getBlockNumber = only_ethereum
      and gas_providers = "[''ethereum'', ''polygon'']" and getBoth = no_provider
      and net_providers = "[''ethereum'', ''polygon'']" and subgraph = subgraph_down
      and d = "[]" and apiKey = "Some ''key''" and elapsed = 0]
  note quick = probes_and_the_price_cache [where net = quick_net and late = 0 and now = 31000
      and g = coindesk_fresh and c = coindesk_warm and getBlockNumber = only_ethereum
      and gas_providers = "[''ethereum'', ''polygon'']" and getBoth = no_provider
      and net_providers = "[''ethereum'', ''polygon'']" and subgraph = subgraph_down
      and d = "[]" and apiKey = None and elapsed = 0]
  from down have d1: "sent (snd (snd (healthCheck_coingecko down_net 0 31000 coindesk_fresh)))
         = [(''/ping'', 31000)]
     \<and> status (fst (healthCheck_coingecko down_net 0 31000 coindesk_fresh)) = ''error''
     \<and> sent (snd (snd (healthCheck_coindesk down_net 0 31000 coindesk_fresh)))
         = [(''/bpi/currentprice.json'', 31000)]
     \<and> status (fst (healthCheck_coindesk down_net 0 31000 coindesk_fresh)) = ''error''"
    using b i s by (simp add: down_net_def)
  from down have d2: "snd (healthCheck_gas only_ethereum [''ethereum'', ''polygon''])
         = [''ethereum'', ''polygon'']
     \<and> status (fst (healthCheck_gas only_ethereum [''ethereum'', ''polygon''])) = ''healthy''
     \<and> status (fst (healthCheck_network no_provider [''ethereum'', ''polygon''])) = ''error''
     \<and> status (fst (healthCheck_defi subgraph_down 31000 [])) = ''healthy''
     \<and> fst (snd (healthCheck_defi subgraph_down 31000 [])) = [(''subgraphUrl'', 31000)]
     \<and> status (healthCheck_arkham (Some ''key'') 0) = ''healthy''"
    using p u by simp
  from quick have q: "sent (snd (snd (healthCheck_coindesk quick_net 0 31000 coindesk_warm)))
         = sent coindesk_warm
     \<and> status (fst (healthCheck_coindesk quick_net 0 31000 coindesk_warm)) = ''healthy''
     \<and> status (healthCheck_arkham None 0) = ''unavailable''"
    using a by simp
  from a b u d1 d2 q show ?thesis by blast
qed

text \<open>
  Claim C8 as it is written fails. The CoinDesk client holds a price cached at clock
  reading 1000, and at 31000 the network is down: every request would be refused. The
  probe reports \<open>healthy\<close> with the cached price and sends nothing; the same probe on a
  client with an empty cache sends a request and reports \<open>error\<close>. The probe of
  DeFiMonitoringService, with an empty cache and a subgraph that refuses the post, reports
  \<open>healthy\<close> all the same.
\<close>

theorem probes_and_the_price_cache_counterexample:
  "fst (down_net ''/bpi/currentprice.json'' 31000) = Inl ''connect ECONNREFUSED''
   \<and> fst (healthCheck_coindesk down_net 0 31000 coindesk_warm)
       = \<lparr>status = ''healthy'', error = None, responseTime = Some 0\<rparr>
   \<and> sent (snd (snd (healthCheck_coindesk down_net 0 31000 coindesk_warm))) = sent coindesk_warm
   \<and> status (fst (healthCheck_coindesk down_net 0 31000 coindesk_fresh)) = ''error''
   \<and> fst (subgraph_down 31000) = Inl ''connect ECONNREFUSED''
   \<and> status (fst (healthCheck_defi subgraph_down 31000 [])) = ''healthy''"
  by (simp add: healthCheck_coindesk_def getCurrentBitcoinPrice_def getCachedData_def
      makeRequest_def down_net_def coindesk_warm_def coindesk_fresh_def Let_def
      healthCheck_defi_def subgraph_down_def setCachedData_def)

section \<open>Properties of the task runner\<close>

lemma task_callback_never_throws: "fst (task_callback name fn startTime lg) = None"
  by (simp add: task_callback_def Let_def split: prod.splits option.splits)

lemma task_callback_appends:
  "\<exists>events. snd (task_callback name fn startTime lg) = lg @ events
     \<and> snd (task_callback name fn startTime lg') = lg' @ events"
  by (simp add: task_callback_def Let_def split: prod.splits option.splits)

lemma fire_keeps_registry:
  "tasks (snd (fire name now s)) = tasks s \<and> isRunning (snd (fire name now s)) = isRunning s
   \<and> fst (fire name now s) = None"
  by (simp add: fire_def task_callback_never_throws split: option.splits)

lemma fire_log_independent:
  assumes "tasks s' = tasks s"
  shows "logged (snd (fire name now s'))
         = logged s' @ drop (length (logged s)) (logged (snd (fire name now s)))"
proof (cases "map_of (tasks s) name")
  case None
  with assms show ?thesis by (simp add: fire_def)
next
  case (Some t)
  obtain events where
    e: "snd (task_callback name (taskFunction t) now (logged s)) = logged s @ events"
       "snd (task_callback name (taskFunction t) now (logged s')) = logged s' @ events"
    using task_callback_appends [of name "taskFunction t" now "logged s" "logged s'"] by blast
  with Some assms show ?thesis by (simp add: fire_def)
qed

lemma addTask_new:
  assumes "map_of (tasks s) name = None" and "valid schedule"
  shows "addTask valid name schedule fn s
     = (None, s\<lparr>tasks := tasks s @ [(name, \<lparr>expression = schedule, taskFunction = fn,
                                        started = isRunning s\<rparr>)],
         logged := logged s
           @ [Info (''Added scheduled task: '' @ name @ '' ('' @ schedule @ '')'')]\<rparr>)"
proof -
  from assms have "name \<notin> fst ` set (tasks s)" by (simp add: map_of_eq_None_iff)
  with assms show ?thesis by (simp add: addTask_def Let_def update_new)
qed

lemma and_then_None: "and_then (None, s) f = f s"
  by (simp add: and_then_def)

text \<open>
  The code at the input of claim C2: \<^verbatim>\<open>start()\<close> on a freshly constructed runner, with the
  five expressions accepted by the library. No exception leaves \<^verbatim>\<open>start\<close>, the runner is
  running and holds the five tasks, but \<^verbatim>\<open>start\<close> sets \<^verbatim>\<open>isRunning\<close> only after its five
  calls of \<^verbatim>\<open>addTask\<close>, each of which passes \<^verbatim>\<open>scheduled: this.isRunning\<close>: every timer is
  created unstarted, and a matching minute runs no handler.
\<close>

theorem start_leaves_timers_unstarted:
  assumes "valid ''*/5 * * * *''" and "valid ''*/15 * * * *''"
    and "valid (''*/'' @ interval @ '' * * * *'')" and "valid ''0 * * * *''"
    and "valid ''*/10 * * * *''"
  shows "start valid jobs interval constructor =
     (None,
      \<lparr>tasks =
        [(''gas-monitoring'',
          \<lparr>expression = ''*/5 * * * *'', taskFunction = jobs ''gas-monitoring'', started = False\<rparr>),
         (''market-data'',
          \<lparr>expression = ''*/15 * * * *'', taskFunction = jobs ''market-data'', started = False\<rparr>),
         (''defi-monitoring'',
          \<lparr>expression = ''*/'' @ interval @ '' * * * *'',
            taskFunction = jobs ''defi-monitoring'', started = False\<rparr>),
         (''network-monitoring'',
          \<lparr>expression = ''0 * * * *'', taskFunction = jobs ''network-monitoring'',
            started = False\<rparr>),
         (''health-check'',
          \<lparr>expression = ''*/10 * * * *'', taskFunction = jobs ''health-check'', started = False\<rparr>)],
      isRunning = True,
      logged =
        [Info ''Starting scheduled tasks...'',
         Info ''Added scheduled task: gas-monitoring (*/5 * * * *)'',
         Info ''Added scheduled task: market-data (*/15 * * * *)'',
         Info (''Added scheduled task: defi-monitoring (*/'' @ interval @ '' * * * *)''),
         Info ''Added scheduled task: network-monitoring (0 * * * *)'',
         Info ''Added scheduled task: health-check (*/10 * * * *)'',
         TasksStarted 5]\<rparr>)
   \<and> fire ''gas-monitoring'' now (snd (start valid jobs interval constructor))
       = (None, snd (start valid jobs interval constructor))
   \<and> fire ''health-check'' now (snd (start valid jobs interval constructor))
       = (None, snd (start valid jobs interval constructor))"
proof -
  have s: "start valid jobs interval constructor =
     (None,
      \<lparr>tasks =
        [(''gas-monitoring'',
          \<lparr>expression = ''*/5 * * * *'', taskFunction = jobs ''gas-monitoring'', started = False\<rparr>),
         (''market-data'',
          \<lparr>expression = ''*/15 * * * *'', taskFunction = jobs ''market-data'', started = False\<rparr>),
         (''defi-monitoring'',
          \<lparr>expression = ''*/'' @ interval @ '' * * * *'',
            taskFunction = jobs ''defi-monitoring'', started = False\<rparr>),
         (''network-monitoring'',
          \<lparr>expression = ''0 * * * *'', taskFunction = jobs ''network-monitoring'',
            started = False\<rparr>),
         (''health-check'',
          \<lparr>expression = ''*/10 * * * *'', taskFunction = jobs ''health-check'', started = False\<rparr>)],
      isRunning = True,
      logged =
        [Info ''Starting scheduled tasks...'',
         Info ''Added scheduled task: gas-monitoring (*/5 * * * *)'',
         Info ''Added scheduled task: market-data (*/15 * * * *)'',
         Info (''Added scheduled task: defi-monitoring (*/'' @ interval @ '' * * * *)''),
         Info ''Added scheduled task: network-monitoring (0 * * * *)'',
         Info ''Added scheduled task: health-check (*/10 * * * *)'',
         TasksStarted 5]\<rparr>)"
    using assms by (simp add: start_def constructor_def and_then_None addTask_new)
  show ?thesis unfolding s by (simp add: fire_def)
qed

theorem start_leaves_timers_unstarted_witness:
  "any_expression ''*/5 * * * *'' \<and> any_expression ''*/15 * * * *''
   \<and> any_expression ''*/30 * * * *'' \<and> any_expression ''0 * * * *''
   \<and> any_expression ''*/10 * * * *''
   \<and> fst (start any_expression (\<lambda>name. passing_job) ''30'' constructor) = None
   \<and> isRunning (snd (start any_expression (\<lambda>name. passing_job) ''30'' constructor))
   \<and> map (\<lambda>(name, task). (name, started task))
        (tasks (snd (start any_expression (\<lambda>name. passing_job) ''30'' constructor)))
       = [(''gas-monitoring'', False), (''market-data'', False), (''defi-monitoring'', False),
          (''network-monitoring'', False), (''health-check'', False)]
   \<and> fire ''gas-monitoring'' 60000 (snd (start any_expression (\<lambda>name. passing_job) ''30'' constructor))
       = (None, snd (start any_expression (\<lambda>name. passing_job) ''30'' constructor))"
proof -
  have v: "any_expression ''*/5 * * * *''" "any_expression ''*/15 * * * *''"
    "any_expression (''*/'' @ ''30'' @ '' * * * *'')" "any_expression ''0 * * * *''"
    "any_expression ''*/10 * * * *''"
    by (simp_all add: any_expression_def)
  note inst = start_leaves_timers_unstarted [OF v, of "\<lambda>name. passing_job" 60000]
  from inst have s: "start any_expression (\<lambda>name. passing_job) ''30'' constructor =
     (None,
      \<lparr>tasks =
        [(''gas-monitoring'',
          \<lparr>expression = ''*/5 * * * *'', taskFunction = passing_job, started = False\<rparr>),
         (''market-data'',
          \<lparr>expression = ''*/15 * * * *'', taskFunction = passing_job, started = False\<rparr>),
         (''defi-monitoring'',
          \<lparr>expression = ''*/'' @ ''30'' @ '' * * * *'',
            taskFunction = passing_job, started = False\<rparr>),
         (''network-monitoring'',
          \<lparr>expression = ''0 * * * *'', taskFunction = passing_job, started = False\<rparr>),
         (''health-check'',
          \<lparr>expression = ''*/10 * * * *'', taskFunction = passing_job, started = False\<rparr>)],
      isRunning = True,
      logged =
        [Info ''Starting scheduled tasks...'',
         Info ''Added scheduled task: gas-monitoring (*/5 * * * *)'',
         Info ''Added scheduled task: market-data (*/15 * * * *)'',
         Info (''Added scheduled task: defi-monitoring (*/'' @ ''30'' @ '' * * * *)''),
         Info ''Added scheduled task: network-monitoring (0 * * * *)'',
         Info ''Added scheduled task: health-check (*/10 * * * *)'',
         TasksStarted 5]\<rparr>)"
    by (rule conjunct1)
  from inst have f: "fire ''gas-monitoring'' 60000
          (snd (start any_expression (\<lambda>name. passing_job) ''30'' constructor))
       = (None, snd (start any_expression (\<lambda>name. passing_job) ''30'' constructor))"
    by blast
  have rest: "fst (start any_expression (\<lambda>name. passing_job) ''30'' constructor) = None
   \<and> isRunning (snd (start any_expression (\<lambda>name. passing_job) ''30'' constructor))
   \<and> map (\<lambda>(name, task). (name, started task))
        (tasks (snd (start any_expression (\<lambda>name. passing_job) ''30'' constructor)))
       = [(''gas-monitoring'', False), (''market-data'', False), (''defi-monitoring'', False),
          (''network-monitoring'', False), (''health-check'', False)]"
    unfolding s by simp
  from v rest f show ?thesis by (simp add: any_expression_def)
qed

text \<open>
  Claim C3. A started timer of a running runner fires and its handler throws. No
  exception leaves the callback; the log gains the start line and the failure with the
  elapsed time \<open>fin - now\<close>; the registry and \<^verbatim>\<open>isRunning\<close> are as before; and any later
  firing, of this task or of another, raises nothing, leaves the registry alone and logs
  exactly what it would have logged without the failure.
\<close>

theorem failing_task_is_isolated:
  assumes "map_of (tasks s) name = Some t" and "started t"
    and "taskFunction t now = (Some err, fin)" and "isRunning s"
  shows "fire name now s
           = (None, s\<lparr>logged := logged s @ [Info (''Starting scheduled task: '' @ name),
                                             TaskFailed name (fin - now) err]\<rparr>)
       \<and> tasks (snd (fire name now s)) = tasks s
       \<and> isRunning (snd (fire name now s))
       \<and> fst (fire name' now' (snd (fire name now s))) = None
       \<and> tasks (snd (fire name' now' (snd (fire name now s)))) = tasks s
       \<and> isRunning (snd (fire name' now' (snd (fire name now s))))
       \<and> logged (snd (fire name' now' (snd (fire name now s))))
           = logged (snd (fire name now s))
             @ drop (length (logged s)) (logged (snd (fire name' now' s)))"
proof -
  have first: "fire name now s
           = (None, s\<lparr>logged := logged s @ [Info (''Starting scheduled task: '' @ name),
                                             TaskFailed name (fin - now) err]\<rparr>)"
    using assms(1-3) by (simp add: fire_def task_callback_def)
  have same: "tasks (snd (fire name now s)) = tasks s"
    using fire_keeps_registry [of name now s] by simp
  have later: "logged (snd (fire name' now' (snd (fire name now s))))
           = logged (snd (fire name now s))
             @ drop (length (logged s)) (logged (snd (fire name' now' s)))"
    by (rule fire_log_independent [OF same])
  from first same later assms(4) fire_keeps_registry [of name now s]
    fire_keeps_registry [of name' now' "snd (fire name now s)"]
  show ?thesis by simp
qed

theorem failing_task_is_isolated_witness:
  "map_of (tasks three_tasks) ''second''
     = Some \<lparr>expression = ''* * * * *'', taskFunction = failing_job, started = True\<rparr>
   \<and> failing_job 100 = (Some ''boom'', 107)
   \<and> isRunning three_tasks
   \<and> fire ''second'' 100 three_tasks
       = (None, three_tasks\<lparr>logged := logged three_tasks
                   @ [Info ''Starting scheduled task: second'', TaskFailed ''second'' 7 ''boom'']\<rparr>)
   \<and> map fst (tasks (snd (fire ''second'' 100 three_tasks)))
       = [''gas-monitoring'', ''market-data'', ''defi-monitoring'', ''network-monitoring'',
          ''health-check'', ''first'', ''second'', ''third'']
   \<and> isRunning (snd (fire ''second'' 100 three_tasks))
   \<and> fst (fire ''third'' 160 (snd (fire ''second'' 100 three_tasks))) = None
   \<and> logged (snd (fire ''third'' 160 (snd (fire ''second'' 100 three_tasks))))
       = logged three_tasks
         @ [Info ''Starting scheduled task: second'', TaskFailed ''second'' 7 ''boom'',
            Info ''Starting scheduled task: third'', TaskPerformance ''third'' 3]"
proof -
  have keys: "map fst (tasks three_tasks)
       = [''gas-monitoring'', ''market-data'', ''defi-monitoring'', ''network-monitoring'',
          ''health-check'', ''first'', ''second'', ''third'']"
    and r: "isRunning three_tasks"
    and t: "map_of (tasks three_tasks) ''second''
     = Some \<lparr>expression = ''* * * * *'', taskFunction = failing_job, started = True\<rparr>"
    and t3: "map_of (tasks three_tasks) ''third''
     = Some \<lparr>expression = ''* * * * *'', taskFunction = passing_job, started = True\<rparr>"
    by (simp_all add: three_tasks_def start_def constructor_def and_then_None addTask_new
        any_expression_def)
  have f: "taskFunction \<lparr>expression = ''* * * * *'', taskFunction = failing_job, started = True\<rparr> 100
           = (Some ''boom'', 107)"
    by (simp add: failing_job_def)
  have third: "logged (snd (fire ''third'' 160 three_tasks))
       = logged three_tasks
         @ [Info ''Starting scheduled task: third'', TaskPerformance ''third'' 3]"
    by (simp add: fire_def task_callback_def passing_job_def t3)
  have st: "started \<lparr>expression = ''* * * * *'', taskFunction = failing_job, started = True\<rparr>"
    by simp
  note inst = failing_task_is_isolated [OF t st f r, of "''third''" 160]
  from inst have c1: "fire ''second'' 100 three_tasks
       = (None, three_tasks\<lparr>logged := logged three_tasks
                   @ [Info ''Starting scheduled task: second'', TaskFailed ''second'' 7 ''boom'']\<rparr>)"
    by simp
  from inst have rest: "tasks (snd (fire ''second'' 100 three_tasks)) = tasks three_tasks
       \<and> isRunning (snd (fire ''second'' 100 three_tasks))
       \<and> fst (fire ''third'' 160 (snd (fire ''second'' 100 three_tasks))) = None
       \<and> logged (snd (fire ''third'' 160 (snd (fire ''second'' 100 three_tasks))))
           = logged (snd (fire ''second'' 100 three_tasks))
             @ drop (length (logged three_tasks)) (logged (snd (fire ''third'' 160 three_tasks)))"
    by blast
  show ?thesis using c1 third keys r t rest by (simp add: failing_job_def)
qed

section \<open>Properties of the webhook dispatcher\<close>

lemma length_Buffer_from_ascii:
  "\<forall>c \<in> set s. (of_char c :: nat) < 128 \<Longrightarrow> length (Buffer_from s) = length s"
  by (induction s) (simp_all add: Buffer_from_def utf8_char_def)

lemma hex_char_ascii: "n < 16 \<Longrightarrow> (of_char (hex_char n) :: nat) < 128"
proof -
  assume "n < 16"
  then have "hex_char n \<in> set ''0123456789abcdef''"
    unfolding hex_char_def by (intro nth_mem) simp
  then show ?thesis by auto
qed

lemma nibble_less: "unat (take_bit 4 (w :: 256 word)) < 16"
proof -
  have "unat (take_bit 4 w) = take_bit 4 (unat w)" by (simp add: unsigned_take_bit_eq)
  also have "\<dots> < 2 ^ 4" by (rule take_bit_nat_less_exp)
  finally show ?thesis by simp
qed

lemma digest_hex_ascii: "\<forall>c \<in> set (digest_hex d). (of_char c :: nat) < 128"
  by (auto simp: digest_hex_def hex_char_ascii nibble_less)

lemma length_digest_hex: "length (digest_hex d) = 64"
  by (simp add: digest_hex_def)

lemma length_computed_digest: "length (Buffer_from (''sha256='' @ digest_hex d)) = 71"
proof -
  have "\<forall>c \<in> set (''sha256='' @ digest_hex d). (of_char c :: nat) < 128"
    using digest_hex_ascii [of d] by auto
  then have "length (Buffer_from (''sha256='' @ digest_hex d)) = length (''sha256='' @ digest_hex d)"
    by (rule length_Buffer_from_ascii)
  then show ?thesis by (simp add: length_digest_hex)
qed


lemma verifySignature_missing:
  "\<not> present sg \<or> \<not> present secret \<Longrightarrow>
   verifySignature stringify hmac payload sg secret = Inr False"
  by (simp add: verifySignature_def)

text \<open>
  Where \<^verbatim>\<open>handle\<close> does answer 401 before any handler runs: the header or the secret is
  missing, or the header has the 71 bytes of a digest string and differs from the digest.
\<close>

lemma handle_answers_401:
  assumes "\<not> present (signature req) \<or> \<not> present secret
     \<or> (\<exists>sig key. signature req = Some sig \<and> secret = Some key
           \<and> length (Buffer_from sig) = 71
           \<and> Buffer_from sig \<noteq> Buffer_from (''sha256='' @ digest_hex (hmac key (stringify (body req)))))"
  shows "handle stringify hmac run_handler req secret = Inr (Response 401 ''Invalid signature'', [])"
proof -
  have "verifySignature stringify hmac (body req) (signature req) secret = Inr False"
    using assms
    by (auto simp: verifySignature_def timingSafeEqual_def Let_def length_computed_digest
        simp del: append.simps)
  then show ?thesis by (simp add: handle_def)
qed

lemma route_answers_401:
  "handle stringify hmac run_handler req (app_webhooks_secret configured)
     = Inr (Response 401 ''Invalid signature'', [])
   \<and> webhook_route stringify hmac run_handler configured req
     = (Response 401 ''Invalid signature'', [])"
  by (simp add: webhook_route_def handle_def verifySignature_def app_webhooks_secret_def)

text \<open>
  Claim C1. The endpoint answers 401 \<open>Invalid signature\<close> to every request and invokes no
  handler, for every event type, body, digest function and configured secret: \<^verbatim>\<open>handle\<close>
  reads \<^verbatim>\<open>githubApp.webhooks.secret\<close>, which is \<open>undefined\<close> on the \<^verbatim>\<open>App\<close>, so \<^verbatim>\<open>verifySignature\<close>
  returns false at its first test. That covers a missing header, a missing secret and
  every header that does not match the digest of the delivered body. For \<^verbatim>\<open>handle\<close> given
  any secret value, the same answer is given when the header is missing or empty, when
  the secret is missing or empty, and when the header has the 71 bytes of a digest string
  and differs from the digest of the delivered body; in particular when the header is the
  digest string of another body, whose digest string differs.
\<close>

theorem invalid_signature_answers_401:
  "webhook_route stringify hmac run_handler configured req
     = (Response 401 ''Invalid signature'', [])
   \<and> handle stringify hmac run_handler req (app_webhooks_secret configured)
     = Inr (Response 401 ''Invalid signature'', [])
   \<and> (\<not> present (signature req) \<or> \<not> present secret
        \<or> (\<exists>sig key. signature req = Some sig \<and> secret = Some key
              \<and> length (Buffer_from sig) = 71
              \<and> Buffer_from sig
                  \<noteq> Buffer_from (''sha256='' @ digest_hex (hmac key (stringify (body req)))))
       \<longrightarrow> handle stringify hmac run_handler req secret
             = Inr (Response 401 ''Invalid signature'', []))
   \<and> (Buffer_from (''sha256='' @ digest_hex (hmac key (stringify other)))
         \<noteq> Buffer_from (''sha256='' @ digest_hex (hmac key (stringify (body req))))
       \<longrightarrow> handle stringify hmac run_handler
               (req\<lparr>signature := Some (''sha256='' @ digest_hex (hmac key (stringify other)))\<rparr>)
               (Some key)
             = Inr (Response 401 ''Invalid signature'', []))"
proof -
  have other: "handle stringify hmac run_handler
               (req\<lparr>signature := Some (''sha256='' @ digest_hex (hmac key (stringify other)))\<rparr>)
               (Some key)
             = Inr (Response 401 ''Invalid signature'', [])"
    if "Buffer_from (''sha256='' @ digest_hex (hmac key (stringify other)))
         \<noteq> Buffer_from (''sha256='' @ digest_hex (hmac key (stringify (body req))))"
  proof (rule handle_answers_401, intro disjI2, intro exI conjI)
    show "signature (req\<lparr>signature := Some (''sha256='' @ digest_hex (hmac key (stringify other)))\<rparr>)
        = Some (''sha256='' @ digest_hex (hmac key (stringify other)))"
      by simp
    show "Some key = Some key" by simp
    show "length (Buffer_from (''sha256='' @ digest_hex (hmac key (stringify other)))) = 71"
      by (rule length_computed_digest)
    from that show "Buffer_from (''sha256='' @ digest_hex (hmac key (stringify other)))
        \<noteq> Buffer_from (''sha256='' @ digest_hex (hmac key (stringify
              (body (req\<lparr>signature := Some (''sha256='' @ digest_hex (hmac key (stringify other)))\<rparr>)))))"
      by simp
  qed
  from other route_answers_401 [of stringify hmac run_handler req configured]
    handle_answers_401 [of req secret hmac stringify run_handler]
  show ?thesis by blast
qed

theorem invalid_signature_answers_401_witness:
  "webhook_route id count_hmac idle_handlers ''s3cret''
        \<lparr>signature = Some ''sha256=abc'', event = Some ''issues'', body = ''{}''\<rparr>
     = (Response 401 ''Invalid signature'', [])
   \<and> webhook_route id count_hmac idle_handlers ''s3cret''
        \<lparr>signature = None, event = Some ''issues'', body = ''{}''\<rparr>
     = (Response 401 ''Invalid signature'', [])
   \<and> \<not> present (signature \<lparr>signature = None, event = Some ''issues'', body = ''{}''\<rparr>)
   \<and> handle id count_hmac idle_handlers
        \<lparr>signature = None, event = Some ''issues'', body = ''{}''\<rparr> (Some ''s3cret'')
     = Inr (Response 401 ''Invalid signature'', [])
   \<and> \<not> present (Some [])
   \<and> handle id count_hmac idle_handlers
        \<lparr>signature = Some ''sha256=abc'', event = Some ''issues'', body = ''{}''\<rparr> (Some [])
     = Inr (Response 401 ''Invalid signature'', [])
   \<and> Buffer_from (''sha256='' @ digest_hex (count_hmac ''s3cret'' (id ''[]xx'')))
       \<noteq> Buffer_from (''sha256='' @ digest_hex (count_hmac ''s3cret''
            (id (body \<lparr>signature = None, event = Some ''issues'', body = ''{}''\<rparr>))))
   \<and> handle id count_hmac idle_handlers
        (\<lparr>signature = None, event = Some ''issues'', body = ''{}''\<rparr>
           \<lparr>signature := Some (''sha256='' @ digest_hex (count_hmac ''s3cret'' (id ''[]xx'')))\<rparr>)
        (Some ''s3cret'')
     = Inr (Response 401 ''Invalid signature'', [])"
proof -
  note other = invalid_signature_answers_401 [where stringify = id and hmac = count_hmac
      and run_handler = idle_handlers and configured = "''s3cret''"
      and req = "\<lparr>signature = None, event = Some ''issues'', body = ''{}''\<rparr>"
      and secret = "Some ''s3cret''" and key = "''s3cret''" and other = "''[]xx''"]
  have d: "Buffer_from (''sha256='' @ digest_hex (count_hmac ''s3cret'' (id ''[]xx'')))
       \<noteq> Buffer_from (''sha256='' @ digest_hex (count_hmac ''s3cret''
            (id (body \<lparr>signature = None, event = Some ''issues'', body = ''{}''\<rparr>))))"
    by (simp add: count_hmac_def digest_hex_def hex_char_def Buffer_from_def utf8_char_def
        upt_rec)
  from other d have o: "handle id count_hmac idle_handlers
        (\<lparr>signature = None, event = Some ''issues'', body = ''{}''\<rparr>
           \<lparr>signature := Some (''sha256='' @ digest_hex (count_hmac ''s3cret'' (id ''[]xx'')))\<rparr>)
        (Some ''s3cret'')
     = Inr (Response 401 ''Invalid signature'', [])"
    by blast
  note short = invalid_signature_answers_401 [where stringify = id and hmac = count_hmac
      and run_handler = idle_handlers and configured = "''s3cret''"
      and req = "\<lparr>signature = Some ''sha256=abc'', event = Some ''issues'', body = ''{}''\<rparr>"
      and secret = "Some []" and key = "''s3cret''" and other = "''{}''"]
  note missing = invalid_signature_answers_401 [where stringify = id and hmac = count_hmac
      and run_handler = idle_handlers and configured = "''s3cret''"
      and req = "\<lparr>signature = None, event = Some ''issues'', body = ''{}''\<rparr>"
      and secret = "Some ''s3cret''" and key = "''s3cret''" and other = "''{}''"]
  have a: "\<not> present (signature \<lparr>signature = None, event = Some ''issues'', body = ''{}''\<rparr>)"
    and b: "\<not> present (Some [])"
    by simp_all
  from short have s1: "webhook_route id count_hmac idle_handlers ''s3cret''
        \<lparr>signature = Some ''sha256=abc'', event = Some ''issues'', body = ''{}''\<rparr>
     = (Response 401 ''Invalid signature'', [])"
    by (rule conjunct1)
  from short b have s2: "handle id count_hmac idle_handlers
        \<lparr>signature = Some ''sha256=abc'', event = Some ''issues'', body = ''{}''\<rparr> (Some [])
     = Inr (Response 401 ''Invalid signature'', [])"
    by blast
  from missing have m1: "webhook_route id count_hmac idle_handlers ''s3cret''
        \<lparr>signature = None, event = Some ''issues'', body = ''{}''\<rparr>
     = (Response 401 ''Invalid signature'', [])"
    by (rule conjunct1)
  from missing a have m2: "handle id count_hmac idle_handlers
        \<lparr>signature = None, event = Some ''issues'', body = ''{}''\<rparr> (Some ''s3cret'')
     = Inr (Response 401 ''Invalid signature'', [])"
    by blast
  from a b s1 s2 m1 m2 d o show ?thesis by blast
qed




section \<open>Properties of the bot commands\<close>

lemma split_on_absent: "sep \<notin> set s \<Longrightarrow> split_on sep s = [s]"
  by (induction s) auto

lemma includes_str_prefix: "includes_str (t @ r) t"
proof (cases "t @ r")
  case Nil
  then show ?thesis by simp
next
  case (Cons c cs)
  have "take (length t) (t @ r) = t" by simp
  with Cons show ?thesis by simp
qed

lemma is_word_not_space: "is_word c \<Longrightarrow> \<not> is_space c"
  by (auto simp: is_word_def is_space_def Let_def)

lemma takeWhile_run:
  assumes "list_all P xs" and "ys = [] \<or> \<not> P (hd ys)"
  shows "takeWhile P (xs @ ys) = xs \<and> dropWhile P (xs @ ys) = ys"
proof -
  from assms(1) have a: "\<forall>x \<in> set xs. P x" by (simp add: list_all_iff)
  from assms(2) have t: "takeWhile P ys = []" and d: "dropWhile P ys = ys"
    by (cases ys; auto)+
  from a t d show ?thesis by (simp add: takeWhile_append2 dropWhile_append2)
qed

lemma match_here_command:
  assumes "ws \<noteq> []" and "list_all is_space ws"
    and "w \<noteq> []" and "list_all is_word w"
    and "rest = [] \<or> \<not> is_word (hd rest)"
  shows "match_here (mention @ ws @ w @ rest)
           = Some (w, second_group rest (length (takeWhile is_space rest)))"
proof -
  from assms(3,4) have "\<not> is_space (hd (w @ rest))"
    by (cases w) (auto simp: is_word_not_space)
  with assms(3) have "w @ rest = [] \<or> \<not> is_space (hd (w @ rest))" by simp
  from takeWhile_run [OF assms(2) this]
  have s: "takeWhile is_space (ws @ w @ rest) = ws" "dropWhile is_space (ws @ w @ rest) = w @ rest"
    by simp_all
  from takeWhile_run [OF assms(4,5)]
  have v: "takeWhile is_word (w @ rest) = w" "dropWhile is_word (w @ rest) = rest"
    by simp_all
  show ?thesis using assms(1,3) by (simp add: match_here_def Let_def s v)
qed

lemma split_on_nonempty: "split_on sep s \<noteq> []"
  by (induction s) (auto split: list.splits)

lemma split_on_append:
  "split_on sep (a @ sep # b) = split_on sep a @ split_on sep b"
proof (induction a)
  case Nil
  then show ?case by simp
next
  case (Cons c cs)
  obtain l ls where l: "split_on sep cs = l # ls"
    using split_on_nonempty [of sep cs] by (cases "split_on sep cs") auto
  with Cons show ?case by simp
qed

lemma split_on_hd_prefix: "\<exists>b. s = hd (split_on sep s) @ b"
proof (induction s)
  case Nil
  then show ?case by simp
next
  case (Cons c cs)
  obtain l ls where l: "split_on sep cs = l # ls"
    using split_on_nonempty [of sep cs] by (cases "split_on sep cs") auto
  with Cons show ?case by auto
qed

lemma split_on_infix: "l \<in> set (split_on sep s) \<Longrightarrow> \<exists>a b. s = a @ l @ b"
proof (induction s arbitrary: l)
  case Nil
  then show ?case by simp
next
  case (Cons c cs)
  obtain l0 ls where l0: "split_on sep cs = l0 # ls"
    using split_on_nonempty [of sep cs] by (cases "split_on sep cs") auto
  show ?case
  proof (cases "c = sep")
    case True
    with Cons.prems have "l = [] \<or> l \<in> set (split_on sep cs)" by simp
    then show ?thesis
    proof
      assume "l = []"
      then have "c # cs = [] @ l @ (c # cs)" by simp
      then show ?thesis by blast
    next
      assume "l \<in> set (split_on sep cs)"
      from Cons.IH [OF this] obtain a b where "cs = a @ l @ b" by blast
      then have "c # cs = (c # a) @ l @ b" by simp
      then show ?thesis by blast
    qed
  next
    case False
    with Cons.prems l0 have "l = c # l0 \<or> l \<in> set ls" by simp
    then show ?thesis
    proof
      assume l: "l = c # l0"
      from split_on_hd_prefix [of cs sep] l0 obtain b where "cs = l0 @ b" by auto
      with l have "c # cs = [] @ l @ b" by simp
      then show ?thesis by blast
    next
      assume "l \<in> set ls"
      with l0 have "l \<in> set (split_on sep cs)" by simp
      from Cons.IH [OF this] obtain a b where "cs = a @ l @ b" by blast
      then have "c # cs = (c # a) @ l @ b" by simp
      then show ?thesis by blast
    qed
  qed
qed

lemma includes_str_infix: "includes_str s t = (\<exists>a b. s = a @ t @ b)"
proof
  show "includes_str s t \<Longrightarrow> \<exists>a b. s = a @ t @ b"
  proof (induction s)
    case Nil
    then show ?case by simp
  next
    case (Cons c cs)
    from Cons.prems have "take (length t) (c # cs) = t \<or> includes_str cs t" by simp
    then show ?case
    proof
      assume "take (length t) (c # cs) = t"
      then have "c # cs = [] @ t @ drop (length t) (c # cs)"
        using append_take_drop_id [of "length t" "c # cs"] by simp
      then show ?thesis by blast
    next
      assume "includes_str cs t"
      from Cons.IH [OF this] obtain a b where "cs = a @ t @ b" by blast
      then have "c # cs = (c # a) @ t @ b" by simp
      then show ?thesis by blast
    qed
  qed
next
  assume "\<exists>a b. s = a @ t @ b"
  then obtain a b where s: "s = a @ t @ b" by blast
  have "includes_str (a @ t @ b) t"
  proof (induction a)
    case Nil
    then show ?case using includes_str_prefix [of t b] by simp
  next
    case (Cons x xs)
    then show ?case by simp
  qed
  with s show "includes_str s t" by simp
qed

lemma matches_at_command:
  assumes "matches_at s"
  shows "\<exists>ws w rest. s = mention @ ws @ w @ rest \<and> ws \<noteq> [] \<and> list_all is_space ws
           \<and> w \<noteq> [] \<and> list_all is_word w \<and> (rest = [] \<or> \<not> is_word (hd rest))"
proof -
  from assms obtain ws c b where s: "s = mention @ ws @ c # b" and ws: "ws \<noteq> []"
    "list_all is_space ws" and c: "is_word c"
    unfolding matches_at_def by blast
  let ?w = "takeWhile is_word (c # b)" and ?rest = "dropWhile is_word (c # b)"
  from c have w: "?w \<noteq> []" by simp
  have aw: "list_all is_word ?w" by (auto simp: list_all_iff dest: set_takeWhileD)
  have r: "?rest = [] \<or> \<not> is_word (hd ?rest)" using hd_dropWhile [of is_word "c # b"] by blast
  have "s = mention @ ws @ ?w @ ?rest" using s by simp
  with ws w aw r show ?thesis by blast
qed

lemma match_here_None: "(match_here s = None) = (\<not> matches_at s)"
proof
  show "match_here s = None \<Longrightarrow> \<not> matches_at s"
  proof
    assume n: "match_here s = None" and "matches_at s"
    from matches_at_command [OF this(2)] obtain ws w rest where
      "s = mention @ ws @ w @ rest" "ws \<noteq> []" "list_all is_space ws" "w \<noteq> []"
      "list_all is_word w" "rest = [] \<or> \<not> is_word (hd rest)"
      by blast
    with match_here_command [of ws w rest] n show False by simp
  qed
next
  show "match_here s = None" if "\<not> matches_at s"
  proof (rule ccontr)
    assume "match_here s \<noteq> None"
    let ?r = "drop (length mention) s"
    let ?ws = "takeWhile is_space ?r" and ?r1 = "dropWhile is_space ?r"
    from \<open>match_here s \<noteq> None\<close> have m: "take (length mention) s = mention"
      and ws: "?ws \<noteq> []" and w: "takeWhile is_word ?r1 \<noteq> []"
      by (auto simp: match_here_def Let_def split: if_splits)
    from w obtain c b where r1: "?r1 = c # b" and c: "is_word c"
      by (cases ?r1) (auto split: if_splits)
    have "s = take (length mention) s @ ?r" by simp
    also have "?r = ?ws @ ?r1" by simp
    finally have "s = mention @ ?ws @ c # b" using m r1 by simp
    moreover have "list_all is_space ?ws" by (auto simp: list_all_iff dest: set_takeWhileD)
    ultimately have "matches_at s" unfolding matches_at_def using ws c by blast
    with that show False by simp
  qed
qed

lemma matches_at_nonempty: "\<not> matches_at []"
  by (simp add: matches_at_def mention_def)

lemma match_line_None: "(match_line line = None) = (\<forall>i. \<not> matches_at (drop i line))"
proof (induction line)
  case Nil
  then show ?case by (simp add: matches_at_nonempty)
next
  case (Cons c cs)
  have "(\<forall>i. \<not> matches_at (drop i (c # cs)))
      = (\<not> matches_at (c # cs) \<and> (\<forall>i. \<not> matches_at (drop i cs)))"
  proof
    assume a: "\<forall>i. \<not> matches_at (drop i (c # cs))"
    from a [rule_format, of 0] have "\<not> matches_at (c # cs)" by simp
    moreover have "\<not> matches_at (drop i cs)" for i using a [rule_format, of "Suc i"] by simp
    ultimately show "\<not> matches_at (c # cs) \<and> (\<forall>i. \<not> matches_at (drop i cs))" by blast
  next
    assume a: "\<not> matches_at (c # cs) \<and> (\<forall>i. \<not> matches_at (drop i cs))"
    show "\<forall>i. \<not> matches_at (drop i (c # cs))"
    proof
      fix i show "\<not> matches_at (drop i (c # cs))" using a by (cases i) simp_all
    qed
  qed
  with Cons match_here_None [of "c # cs"] show ?case
    by (cases "match_here (c # cs)") simp_all
qed

lemma match_line_leftmost:
  assumes "\<forall>i < length pre. \<not> matches_at (drop i (pre @ s))" and "matches_at s"
  shows "match_line (pre @ s) = match_here s"
  using assms
proof (induction pre)
  case Nil
  from Nil(2) obtain c cs where s: "s = c # cs"
    by (cases s) (auto simp: matches_at_nonempty)
  from Nil(2) match_here_None [of s] obtain m where "match_here s = Some m" by auto
  with s show ?case by simp
next
  case (Cons p ps)
  from Cons.prems(1) [rule_format, of 0] have "match_here (p # ps @ s) = None"
    by (simp add: match_here_None)
  moreover have "\<forall>i < length ps. \<not> matches_at (drop i (ps @ s))"
  proof (intro allI impI)
    fix i assume "i < length ps"
    with Cons.prems(1) [rule_format, of "Suc i"] show "\<not> matches_at (drop i (ps @ s))" by simp
  qed
  ultimately show ?case using Cons.IH Cons.prems(2) by simp
qed

lemma match_line_includes: "match_line line = Some m \<Longrightarrow> includes_str line mention"
proof (induction line)
  case Nil
  then show ?case by simp
next
  case (Cons c cs)
  show ?case
  proof (cases "match_here (c # cs)")
    case None
    with Cons show ?thesis by simp
  next
    case (Some m')
    then have "take (length mention) (c # cs) = mention"
      by (auto simp: match_here_def split: if_splits)
    then show ?thesis by simp
  qed
qed

lemma parse_line_match:
  "parse_line line =
     (case match_line line of
        Some (w, a) \<Rightarrow>
          [\<lparr>command = w, args = (case a of Some t \<Rightarrow> split_on (CHR '' '') t | None \<Rightarrow> [])\<rparr>]
      | None \<Rightarrow> [])"
proof (cases "match_line line")
  case None
  then show ?thesis by (simp add: parse_line_def)
next
  case (Some m)
  from match_line_includes [OF this] Some show ?thesis by (simp add: parse_line_def)
qed

lemma parseBotCommands_lines:
  "parseBotCommands (head_lines @ CHR 0x0A # more_lines) = parseBotCommands head_lines @ parseBotCommands more_lines"
  by (simp add: parseBotCommands_def split_on_append)

lemma parseBotCommands_line:
  "CHR 0x0A \<notin> set line \<Longrightarrow> parseBotCommands line = parse_line line"
  by (simp add: parseBotCommands_def split_on_absent)

lemma parseBotCommands_no_mention:
  assumes "\<not> includes_str commentBody mention"
  shows "parseBotCommands commentBody = []"
proof -
  have "parse_line l = []" if "l \<in> set (split_on (CHR 0x0A) commentBody)" for l
  proof -
    from split_on_infix [OF that] obtain a b where b: "commentBody = a @ l @ b" by blast
    have "\<not> includes_str l mention"
    proof
      assume "includes_str l mention"
      then obtain a' b' where "l = a' @ mention @ b'" by (auto simp: includes_str_infix)
      with b have "commentBody = (a @ a') @ mention @ (b' @ b)" by simp
      then have "includes_str commentBody mention" unfolding includes_str_infix by blast
      with assms show False by simp
    qed
    then show ?thesis by (simp add: parse_line_def)
  qed
  then show ?thesis by (simp add: parseBotCommands_def)
qed

lemma second_group_text:
  assumes "sp \<noteq> []" and "list_all is_space sp" and "given \<noteq> []" and "\<not> is_space (hd given)"
  shows "second_group (sp @ given) (length (takeWhile is_space (sp @ given)))
           = Some (takeWhile is_dot given)"
proof -
  from assms(3,4) have "given = [] \<or> \<not> is_space (hd given)" by simp
  from takeWhile_run [OF assms(2) this] have k: "takeWhile is_space (sp @ given) = sp" by simp
  from assms(1) obtain n where n: "length sp = Suc n" by (cases sp) auto
  from assms(3,4) have "is_dot (hd given)" by (auto simp: is_dot_def is_space_def)
  with assms(3) have t: "takeWhile is_dot given \<noteq> []" by (cases given) auto
  from n have d: "drop (Suc n) (sp @ given) = given" by simp
  have "second_group (sp @ given) (Suc n) = Some (takeWhile is_dot given)"
    using t by (simp only: second_group.simps d) simp
  then show ?thesis by (simp add: k n)
qed

text \<open>
  Claim C9. Every comment is read line by line: the commands of a comment are those of
  its lines, in order. A line in which the expression (the mention, white space, a word
  character) matches at no position gives no command. A line in which it matches gives
  one command, taken at the leftmost match, wherever in the line that is: \<open>pre\<close> is the
  text before it, \<open>w\<close> the command word and \<open>rest\<close> whatever follows the word; the arguments
  are the second group split at the spaces, which is the rest of the line after the white
  space that follows the word when the next character is not white space. For a created
  comment \<^verbatim>\<open>handleIssueComment\<close> runs exactly the parsed commands, in order, once the origin
  has handed out its client, and does nothing when there are none or for another action.
  \<open>analyze\<close>, \<open>monitor\<close> and \<open>status\<close> make the calls of their own actions: \<open>status\<close> calls
  \<^verbatim>\<open>getOverallStatus\<close> and replies with its payload, and calls neither the analysis nor the
  monitoring. Every other word gives the one reply \<open>UnknownCommand\<close>; \<^verbatim>\<open>executeBotCommand\<close>
  has no error result.
\<close>

theorem bot_command_dispatch:
  "parseBotCommands (head_lines @ CHR 0x0A # more_lines)
     = parseBotCommands head_lines @ parseBotCommands more_lines
   \<and> (CHR 0x0A \<notin> set line \<and> (\<forall>i. \<not> matches_at (drop i line))
        \<longrightarrow> parseBotCommands line = [])
   \<and> (CHR 0x0A \<notin> set (pre @ mention @ ws @ w @ rest)
        \<and> (\<forall>i < length pre. \<not> matches_at (drop i (pre @ mention @ ws @ w @ rest)))
        \<and> ws \<noteq> [] \<and> list_all is_space ws \<and> w \<noteq> [] \<and> list_all is_word w
        \<and> (rest = [] \<or> \<not> is_word (hd rest))
        \<longrightarrow> parseBotCommands (pre @ mention @ ws @ w @ rest)
              = [\<lparr>command = w,
                  args = (case second_group rest (length (takeWhile is_space rest)) of
                            Some t \<Rightarrow> split_on (CHR '' '') t | None \<Rightarrow> [])\<rparr>])
   \<and> second_group [] (length (takeWhile is_space [])) = None
   \<and> (sp \<noteq> [] \<and> list_all is_space sp \<and> given \<noteq> [] \<and> \<not> is_space (hd given)
        \<longrightarrow> second_group (sp @ given) (length (takeWhile is_space (sp @ given)))
              = Some (takeWhile is_dot given))
   \<and> handleIssueComment env act commentBody
       = (if act = ''created'' \<and> parseBotCommands commentBody \<noteq> []
          then (case octokit env of
                  Some message \<Rightarrow> (Some message, [])
                | None \<Rightarrow> (None, concat (map (executeBotCommand env)
                                            (parseBotCommands commentBody))))
          else (None, []))
   \<and> executeBotCommand env \<lparr>command = ''status'', args = a\<rparr>
       = [GetOverallStatus, Reply (CurrentStatus (getOverallStatus (health_probes env)))]
   \<and> executeBotCommand env \<lparr>command = ''analyze'', args = a\<rparr>
       = [AnalyzeRepository,
          Reply (case analyze env of None \<Rightarrow> GasAnalysisStarted
                 | Some message \<Rightarrow> CommandFailed message)]
   \<and> executeBotCommand env \<lparr>command = ''monitor'', args = a\<rparr>
       = [UpdateDeployments,
          Reply (case monitor env of None \<Rightarrow> MonitoringActivated
                 | Some message \<Rightarrow> CommandFailed message)]
   \<and> (cmd \<noteq> ''analyze'' \<and> cmd \<noteq> ''monitor'' \<and> cmd \<noteq> ''status'' \<longrightarrow>
        executeBotCommand env \<lparr>command = cmd, args = a\<rparr> = [Reply (UnknownCommand cmd)])"
proof -
  have none: "parseBotCommands line = []"
    if "CHR 0x0A \<notin> set line" and "\<forall>i. \<not> matches_at (drop i line)"
  proof -
    from that(2) have "match_line line = None" by (simp add: match_line_None)
    with that(1) show ?thesis by (simp add: parseBotCommands_line parse_line_match)
  qed
  have one: "parseBotCommands (pre @ mention @ ws @ w @ rest)
              = [\<lparr>command = w,
                  args = (case second_group rest (length (takeWhile is_space rest)) of
                            Some t \<Rightarrow> split_on (CHR '' '') t | None \<Rightarrow> [])\<rparr>]"
    if "CHR 0x0A \<notin> set (pre @ mention @ ws @ w @ rest)"
      and "\<forall>i < length pre. \<not> matches_at (drop i (pre @ mention @ ws @ w @ rest))"
      and "ws \<noteq> []" and "list_all is_space ws" and "w \<noteq> []" and "list_all is_word w"
      and "rest = [] \<or> \<not> is_word (hd rest)"
  proof -
    from match_here_command [OF that(3-7)]
    have h: "match_here (mention @ ws @ w @ rest)
        = Some (w, second_group rest (length (takeWhile is_space rest)))" .
    then have "matches_at (mention @ ws @ w @ rest)"
      using match_here_None [of "mention @ ws @ w @ rest"] by simp
    from match_line_leftmost [OF that(2) this] h
    have "match_line (pre @ mention @ ws @ w @ rest)
        = Some (w, second_group rest (length (takeWhile is_space rest)))"
      by simp
    then have "parse_line (pre @ mention @ ws @ w @ rest)
        = [\<lparr>command = w,
            args = (case second_group rest (length (takeWhile is_space rest)) of
                      Some t \<Rightarrow> split_on (CHR '' '') t | None \<Rightarrow> [])\<rparr>]"
      by (simp add: parse_line_match)
    with parseBotCommands_line [OF that(1)] show ?thesis by simp
  qed
  have comment: "handleIssueComment env act commentBody
       = (if act = ''created'' \<and> parseBotCommands commentBody \<noteq> []
          then (case octokit env of
                  Some message \<Rightarrow> (Some message, [])
                | None \<Rightarrow> (None, concat (map (executeBotCommand env)
                                            (parseBotCommands commentBody))))
          else (None, []))"
  proof (cases "includes_str commentBody mention")
    case True
    then show ?thesis by (simp add: handleIssueComment_def handleBotMention_def Let_def)
  next
    case False
    from parseBotCommands_no_mention [OF this] False show ?thesis
      by (simp add: handleIssueComment_def)
  qed
  have exec: "executeBotCommand env \<lparr>command = ''status'', args = a\<rparr>
           = [GetOverallStatus, Reply (CurrentStatus (getOverallStatus (health_probes env)))]"
    "executeBotCommand env \<lparr>command = ''analyze'', args = a\<rparr>
           = [AnalyzeRepository,
              Reply (case analyze env of None \<Rightarrow> GasAnalysisStarted
                     | Some message \<Rightarrow> CommandFailed message)]"
    "executeBotCommand env \<lparr>command = ''monitor'', args = a\<rparr>
           = [UpdateDeployments,
              Reply (case monitor env of None \<Rightarrow> MonitoringActivated
                     | Some message \<Rightarrow> CommandFailed message)]"
    "cmd \<noteq> ''analyze'' \<and> cmd \<noteq> ''monitor'' \<and> cmd \<noteq> ''status'' \<longrightarrow>
            executeBotCommand env \<lparr>command = cmd, args = a\<rparr> = [Reply (UnknownCommand cmd)]"
    by (simp_all add: executeBotCommand_def split: option.splits)
  have g0: "second_group [] (length (takeWhile is_space [])) = None" by simp
  from none one comment exec g0 parseBotCommands_lines [of head_lines more_lines]
    second_group_text [of sp given]
  show ?thesis by blast
qed

theorem bot_command_dispatch_witness:
  "list_all is_space '' '' \<and> list_all is_word ''status'' \<and> list_all is_word ''deploy''
   \<and> \<not> is_word (hd '' now please'') \<and> \<not> is_space (hd ''now please'')
   \<and> octokit calm_world = None
   \<and> match_line ''thanks @crypto-intel-bot!'' = None
   \<and> parseBotCommands ''thanks @crypto-intel-bot!'' = []
   \<and> handleIssueComment calm_world ''created'' ''thanks @crypto-intel-bot!'' = (None, [])
   \<and> parseBotCommands ''hey @crypto-intel-bot status'' = [\<lparr>command = ''status'', args = []\<rparr>]
   \<and> parseBotCommands ''@crypto-intel-bot deploy now please''
       = [\<lparr>command = ''deploy'', args = [''now'', ''please'']\<rparr>]
   \<and> parseBotCommands
        (''hey @crypto-intel-bot status'' @ CHR 0x0A # ''@crypto-intel-bot deploy now please'')
       = [\<lparr>command = ''status'', args = []\<rparr>,
          \<lparr>command = ''deploy'', args = [''now'', ''please'']\<rparr>]
   \<and> handleIssueComment calm_world ''created''
        (''hey @crypto-intel-bot status'' @ CHR 0x0A # ''@crypto-intel-bot deploy now please'')
       = (None, [GetOverallStatus,
                 Reply (CurrentStatus (getOverallStatus (health_probes calm_world))),
                 Reply (UnknownCommand ''deploy'')])"
proof -
  have sp: "'' '' \<noteq> []" "list_all is_space '' ''"
    by (simp_all add: is_space_def)
  have st: "''status'' \<noteq> []" "list_all is_word ''status''"
    and dp: "''deploy'' \<noteq> []" "list_all is_word ''deploy''"
    by (simp_all add: is_word_def)
  have r1: "[] = [] \<or> \<not> is_word (hd [])" by simp
  have nw: "\<not> is_word (hd '' now please'')" by (simp add: is_word_def)
  then have r2: "'' now please'' = [] \<or> \<not> is_word (hd '' now please'')" by (rule disjI2)
  have gv: "''now please'' \<noteq> []" "\<not> is_space (hd ''now please'')"
    by (simp_all add: is_space_def)
  have o: "octokit calm_world = None" by (simp add: calm_world_def)
  have ne: "''deploy'' \<noteq> ''analyze'' \<and> ''deploy'' \<noteq> ''monitor'' \<and> ''deploy'' \<noteq> ''status''"
    by simp
  have body1: "''hey '' @ mention @ '' '' @ ''status'' @ [] = ''hey @crypto-intel-bot status''"
    and body2: "[] @ mention @ '' '' @ ''deploy'' @ '' now please''
                = ''@crypto-intel-bot deploy now please''"
    by (simp_all add: mention_def)
  have lf1: "CHR 0x0A \<notin> set (''hey '' @ mention @ '' '' @ ''status'' @ [])"
    and lf2: "CHR 0x0A \<notin> set ([] @ mention @ '' '' @ ''deploy'' @ '' now please'')"
    and lf3: "CHR 0x0A \<notin> set ''thanks @crypto-intel-bot!''"
    by (simp_all add: mention_def)
  have "\<forall>i < length ''hey ''. match_here (drop i ''hey @crypto-intel-bot status'') = None"
    by (simp add: All_less_Suc match_here_def mention_def)
  then have e1: "\<forall>i < length ''hey ''.
      \<not> matches_at (drop i (''hey '' @ mention @ '' '' @ ''status'' @ []))"
    by (simp only: body1 match_here_None)
  have e2: "\<forall>i < length ([] :: string).
      \<not> matches_at (drop i ([] @ mention @ '' '' @ ''deploy'' @ '' now please''))"
    by simp
  have m3: "match_line ''thanks @crypto-intel-bot!'' = None"
    by (simp add: match_here_def mention_def is_space_def)
  then have e3: "\<forall>i. \<not> matches_at (drop i ''thanks @crypto-intel-bot!'')"
    unfolding match_line_None .
  have g1: "(case second_group [] (length (takeWhile is_space [])) of
               Some t \<Rightarrow> split_on (CHR '' '') t | None \<Rightarrow> []) = []"
    by simp
  have td: "takeWhile is_dot ''now please'' = ''now please''" by (simp add: is_dot_def)
  have sg: "'' '' @ ''now please'' = '' now please''" by simp
  have args: "split_on (CHR '' '') ''now please'' = [''now'', ''please'']" by simp
  note a = bot_command_dispatch [where head_lines = "''hey @crypto-intel-bot status''"
      and more_lines = "''@crypto-intel-bot deploy now please''"
      and line = "''thanks @crypto-intel-bot!''"
      and pre = "''hey ''" and ws = "'' ''" and w = "''status''" and rest = "[]"
      and sp = "'' ''" and given = "''now please''" and env = calm_world
      and act = "''created''"
      and commentBody = "''hey @crypto-intel-bot status'' @ CHR 0x0A
                         # ''@crypto-intel-bot deploy now please''"
      and a = "[]" and cmd = "''deploy''"]
  note b = bot_command_dispatch [where head_lines = "[]" and more_lines = "[]"
      and line = "[]"
      and pre = "[]" and ws = "'' ''" and w = "''deploy''" and rest = "'' now please''"
      and sp = "'' ''" and given = "''now please''" and env = calm_world
      and act = "''created''" and commentBody = "''thanks @crypto-intel-bot!''"
      and a = "[''now'', ''please'']" and cmd = "''deploy''"]
  from a have lines: "parseBotCommands
        (''hey @crypto-intel-bot status'' @ CHR 0x0A # ''@crypto-intel-bot deploy now please'')
       = parseBotCommands ''hey @crypto-intel-bot status''
         @ parseBotCommands ''@crypto-intel-bot deploy now please''"
    by (rule conjunct1)
  from a lf3 e3 have p3: "parseBotCommands ''thanks @crypto-intel-bot!'' = []" by blast
  from a lf1 e1 sp st r1
  have "parseBotCommands (''hey '' @ mention @ '' '' @ ''status'' @ [])
       = [\<lparr>command = ''status'',
           args = (case second_group [] (length (takeWhile is_space [])) of
                     Some t \<Rightarrow> split_on (CHR '' '') t | None \<Rightarrow> [])\<rparr>]"
    by blast
  then have p1: "parseBotCommands ''hey @crypto-intel-bot status''
       = [\<lparr>command = ''status'', args = []\<rparr>]"
    by (simp only: body1 g1)
  from a sp gv have "second_group ('' '' @ ''now please'')
        (length (takeWhile is_space ('' '' @ ''now please''))) = Some (takeWhile is_dot ''now please'')"
    by blast
  then have g2: "second_group '' now please'' (length (takeWhile is_space '' now please''))
       = Some ''now please''"
    by (simp only: sg td)
  from b lf2 e2 sp dp r2
  have "parseBotCommands ([] @ mention @ '' '' @ ''deploy'' @ '' now please'')
       = [\<lparr>command = ''deploy'',
           args = (case second_group '' now please'' (length (takeWhile is_space '' now please'')) of
                     Some t \<Rightarrow> split_on (CHR '' '') t | None \<Rightarrow> [])\<rparr>]"
    by blast
  then have p2: "parseBotCommands ''@crypto-intel-bot deploy now please''
       = [\<lparr>command = ''deploy'', args = [''now'', ''please'']\<rparr>]"
    by (simp only: body2 g2 option.case args)
  from lines have p12: "parseBotCommands
        (''hey @crypto-intel-bot status'' @ CHR 0x0A # ''@crypto-intel-bot deploy now please'')
       = [\<lparr>command = ''status'', args = []\<rparr>,
          \<lparr>command = ''deploy'', args = [''now'', ''please'']\<rparr>]"
    by (simp only: p1 p2 append.simps)
  from a have x1: "executeBotCommand calm_world \<lparr>command = ''status'', args = []\<rparr>
       = [GetOverallStatus, Reply (CurrentStatus (getOverallStatus (health_probes calm_world)))]"
    by blast
  from b ne have x2: "executeBotCommand calm_world
        \<lparr>command = ''deploy'', args = [''now'', ''please'']\<rparr>
       = [Reply (UnknownCommand ''deploy'')]"
    by blast
  from a have "handleIssueComment calm_world ''created''
        (''hey @crypto-intel-bot status'' @ CHR 0x0A # ''@crypto-intel-bot deploy now please'')
       = (if ''created'' = ''created''
            \<and> parseBotCommands (''hey @crypto-intel-bot status'' @ CHR 0x0A
                 # ''@crypto-intel-bot deploy now please'') \<noteq> []
          then (case octokit calm_world of
                  Some message \<Rightarrow> (Some message, [])
                | None \<Rightarrow> (None, concat (map (executeBotCommand calm_world)
                     (parseBotCommands (''hey @crypto-intel-bot status'' @ CHR 0x0A
                        # ''@crypto-intel-bot deploy now please'')))))
          else (None, []))"
    by blast
  then have h12: "handleIssueComment calm_world ''created''
        (''hey @crypto-intel-bot status'' @ CHR 0x0A # ''@crypto-intel-bot deploy now please'')
       = (None, [GetOverallStatus,
                 Reply (CurrentStatus (getOverallStatus (health_probes calm_world))),
                 Reply (UnknownCommand ''deploy'')])"
    by (simp only: p12 o) (simp add: x1 x2)
  from b have "handleIssueComment calm_world ''created'' ''thanks @crypto-intel-bot!''
       = (if ''created'' = ''created'' \<and> parseBotCommands ''thanks @crypto-intel-bot!'' \<noteq> []
          then (case octokit calm_world of
                  Some message \<Rightarrow> (Some message, [])
                | None \<Rightarrow> (None, concat (map (executeBotCommand calm_world)
                     (parseBotCommands ''thanks @crypto-intel-bot!''))))
          else (None, []))"
    by blast
  then have h3: "handleIssueComment calm_world ''created'' ''thanks @crypto-intel-bot!''
       = (None, [])"
    by (simp only: p3) simp
  from sp(2) st(2) dp(2) nw gv(2) o m3 p3 h3 p1 p2 p12 h12 show ?thesis by blast
qed

end
